theory Spec2Isabelle
  imports Main "HOL-Library.Word"
begin

section \<open>Transaction log interpreter: \<open>src/app/utils/program-logs.ts\<close>\<close>

text \<open>
  A shallow embedding of \<open>parseProgramLogs\<close>. The function walks over the log strings of a
  transaction with three local variables (\<open>depth\<close>, \<open>prettyLogs\<close>, \<open>currentProgram\<close>),
  mutating the last element of \<open>prettyLogs\<close> as it goes. Here the three variables, and
  the text written by \<open>console.warn\<close>, form a record that every step takes and returns.
  Reading a property of \<open>undefined\<close> (what \<open>prettyLogs[prettyLogs.length - 1]\<close> is on an
  empty array) raises a TypeError in JavaScript: the steps return a sum, with the error
  on the left.

  A JavaScript string is a sequence of UTF-16 code units. It is modelled by \<open>string\<close>,
  whose characters are the code units below 256; the non-breaking space U+00A0 of the
  indent token is \<open>CHR 0xA0\<close>. The line terminators U+2028 and U+2029 lie outside.
\<close>

subsection \<open>Strings\<close>

text \<open>\<open>s.startsWith(p)\<close>\<close>

fun startsWith :: "string \<Rightarrow> string \<Rightarrow> bool" where
  "startsWith s [] = True"
| "startsWith [] (p # ps) = False"
| "startsWith (c # cs) (p # ps) = (c = p \<and> startsWith cs ps)"

text \<open>\<open>s.includes(p)\<close>: \<open>p\<close> starts at some position of \<open>s\<close>.\<close>

fun includes' :: "string \<Rightarrow> string \<Rightarrow> bool" where
  "includes' [] p = (p = [])"
| "includes' (c # cs) p = (startsWith (c # cs) p \<or> includes' cs p)"

text \<open>\<open>s.indexOf(p)\<close>: the first position where \<open>p\<close> starts, or -1.\<close>

fun indexOf :: "string \<Rightarrow> string \<Rightarrow> int" where
  "indexOf [] p = (if p = [] then 0 else -1)"
| "indexOf (c # cs) p =
     (if startsWith (c # cs) p then 0
      else (let i = indexOf cs p in if i < 0 then -1 else i + 1))"

text \<open>
  \<open>s.slice(i)\<close>: from position \<open>i\<close> to the end; a negative \<open>i\<close> counts from the end,
  and a position past the end gives the empty string.
\<close>

definition slice :: "string \<Rightarrow> int \<Rightarrow> string" where
  "slice s i = (if i < 0 then drop (nat (int (length s) + i)) s else drop (nat i) s)"

text \<open>\<open>s.charAt(i)\<close>: the string of the one code unit at \<open>i\<close>, empty out of range.\<close>

definition charAt :: "string \<Rightarrow> int \<Rightarrow> string" where
  "charAt s i = (if 0 \<le> i \<and> nat i < length s then [s ! nat i] else [])"

text \<open>
  \<open>s.toUpperCase()\<close> on the ASCII letters. The source calls it on \<open>log.charAt(0)\<close> under
  the guard \<open>log.startsWith('failed')\<close> only, where the character is \<open>f\<close>.
\<close>

definition upperChar :: "char \<Rightarrow> char" where
  "upperChar c =
     (let n = (of_char c :: nat) in if 97 \<le> n \<and> n \<le> 122 then char_of (n - 32) else c)"

definition toUpperCase :: "string \<Rightarrow> string" where
  "toUpperCase s = map upperChar s"

text \<open>\<open>xs.join(sep)\<close> on an array of strings.\<close>

fun join :: "string list \<Rightarrow> string \<Rightarrow> string" where
  "join [] sep = []"
| "join [x] sep = x"
| "join (x # y # ys) sep = x @ sep @ join (y # ys) sep"

text \<open>The decimal text of an integer, as a template literal prints a number.\<close>

fun digitsOf :: "nat \<Rightarrow> string" where
  "digitsOf n =
     (if n < 10 then [char_of (48 + n)]
      else digitsOf (n div 10) @ [char_of (48 + n mod 10)])"

definition numberToString :: "int \<Rightarrow> string" where
  "numberToString i = (if i < 0 then ''-'' @ digitsOf (nat (- i)) else digitsOf (nat i))"

subsection \<open>The character classes of the regular expressions\<close>

text \<open>\<open>\d\<close> is \<open>[0-9]\<close>, \<open>\w\<close> is \<open>[A-Za-z0-9_]\<close>, and \<open>.\<close> is any code unit but a line
  terminator (line feed and carriage return, among the code units below 256).\<close>

definition isDigit :: "char \<Rightarrow> bool" where
  "isDigit c = (let n = (of_char c :: nat) in 48 \<le> n \<and> n \<le> 57)"

definition isWord :: "char \<Rightarrow> bool" where
  "isWord c =
     (let n = (of_char c :: nat)
      in (48 \<le> n \<and> n \<le> 57) \<or> (65 \<le> n \<and> n \<le> 90) \<or> n = 95 \<or> (97 \<le> n \<and> n \<le> 122))"

definition isDot :: "char \<Rightarrow> bool" where
  "isDot c = (c \<noteq> CHR 0x0A \<and> c \<noteq> CHR 0x0D)"

subsection \<open>Numbers\<close>

text \<open>
  \<open>computeUnits\<close> is a JavaScript number, a double. It starts at 0 and only ever has
  results of \<open>Number.parseInt\<close> on a run of decimal digits added to it, so it is NaN,
  Infinity, or a double that is a non-negative integer: \<open>Num n\<close> stands for the double
  whose value is \<open>n\<close>.

  A double holds 53 binary digits. Every integer up to \<open>2 ^ 53\<close> is a double; a larger
  one is rounded to the nearest integer with 53 significant binary digits, to the even
  one of two that are equally near, and to Infinity from \<open>2 ^ 1024\<close> on.
\<close>

datatype number = NaN | Infinity | Num nat

text \<open>The number of binary digits of \<open>n\<close>.\<close>

fun bitLength :: "nat \<Rightarrow> nat" where
  "bitLength n = (if n = 0 then 0 else Suc (bitLength (n div 2)))"

definition roundToDouble :: "nat \<Rightarrow> number" where
  "roundToDouble n =
     (if n \<le> 2 ^ 53 then Num n
      else (let e = bitLength n - 53;
                q = n div 2 ^ e;
                r = n mod 2 ^ e;
                m = (if 2 ^ e < 2 * r \<or> (2 * r = 2 ^ e \<and> odd q) then q + 1 else q) * 2 ^ e
            in if 2 ^ 1024 \<le> m then Infinity else Num m))"

text \<open>
  \<open>x + y\<close> on these numbers: NaN absorbs, then Infinity, and the sum of two doubles is
  the exact sum, rounded.
\<close>

fun plus_number :: "number \<Rightarrow> number \<Rightarrow> number" where
  "plus_number NaN y = NaN"
| "plus_number x NaN = NaN"
| "plus_number Infinity y = Infinity"
| "plus_number x Infinity = Infinity"
| "plus_number (Num a) (Num b) = roundToDouble (a + b)"

text \<open>
  \<open>Number.parseInt(p1)\<close>, where \<open>p1\<close> is the group \<open>(\d*)\<close>. \<open>mathInt\<close> is the integer that the
  leading decimal digits denote, none when there is no digit; \<open>parseInt\<close> gives NaN then,
  and the double of that integer otherwise. (White space and a sign before the digits,
  which \<open>parseInt\<close> would skip, cannot occur in that group. The language lets an engine
  read the digits after the 20th significant one as 0; the model reads every digit, and
  no integer up to \<open>2 ^ 53\<close> has that many.)
\<close>

definition digitValue :: "char \<Rightarrow> nat" where
  "digitValue c = of_char c - 48"

definition mathInt :: "string \<Rightarrow> nat option" where
  "mathInt s =
     (let ds = takeWhile isDigit s
      in if ds = [] then None else Some (foldl (\<lambda>acc c. acc * 10 + digitValue c) 0 ds))"

definition parseInt :: "string \<Rightarrow> number" where
  "parseInt s = (case mathInt s of None \<Rightarrow> NaN | Some n \<Rightarrow> roundToDouble n)"

subsection \<open>The data model\<close>

datatype style = Muted | Info | Success | Warning

record LogMessage =
  text' :: string
  prefix :: string
  style :: style

record InstructionLogs =
  invokedProgram :: "string option"
  logs :: "LogMessage list"
  computeUnits :: number
  truncated :: bool
  failed :: bool

datatype error = TypeError | DecodeError

record state =
  depth :: int
  prettyLogs :: "InstructionLogs list"
  currentProgram :: "string list"
  console :: "string list"

subsection \<open>\<open>prefixBuilder\<close>\<close>

text \<open>
  The nested function \<open>prefixBuilder\<close> returns the prefix and may call \<open>console.warn\<close>:
  the model returns the lines it warns with, and the prefix.
  \<open>new Array(n).fill(x)\<close> is \<open>replicate n x\<close>.
\<close>

definition indentToken :: string where
  "indentToken = [CHR 0xA0, CHR 0xA0]"

definition indentWarning :: "int \<Rightarrow> string" where
  \<open>indentWarning indentLevel =
     ''Tried to build a prefix for a program log at indent level `'' @
     numberToString indentLevel @ ''`. '' @
     ''Logs should only ever be built at indent level 1 or higher.''\<close>

definition prefixBuilder :: "int \<Rightarrow> string list \<times> string" where
  "prefixBuilder indentLevel =
     (if indentLevel \<le> 0 then ([indentWarning indentLevel], '''' @ ''> '')
      else ([], join (replicate (nat (indentLevel - 1)) indentToken) '''' @ ''> ''))"

subsection \<open>The regular expressions\<close>

text \<open>
  Each of the three regular expressions of the source is a literal, a greedy run of one
  character class, and a literal that begins with a character outside that class. A
  shorter run would have to be followed by a character of the class where the literal
  needs its first character, so backtracking never finds a match that the longest run
  misses: a match at a position is decided by \<open>takeWhile\<close> and \<open>dropWhile\<close>.
  All three carry the flag \<open>g\<close>; the search goes on after the end of a match.
\<close>

text \<open>
  \<open>log.replace(/Program log: (.*)/g, (match, p1) => `Program logged: "${p1}"`)\<close>.
  The group \<open>(.*)\<close> runs to the next line terminator or to the end.
\<close>

function replaceLog :: "string \<Rightarrow> string" where
  "replaceLog [] = []"
| "replaceLog (c # cs) =
     (if startsWith (c # cs) ''Program log: ''
      then ''Program logged: '' @ [CHR 0x22] @ takeWhile isDot (drop 13 (c # cs)) @ [CHR 0x22] @
           replaceLog (dropWhile isDot (drop 13 (c # cs)))
      else c # replaceLog cs)"
  by pat_completeness auto
termination
proof (relation "measure length")
  show "wf (measure length)" by simp
next
  fix c :: char and cs :: string
  have "length (dropWhile isDot (drop 13 (c # cs))) \<le> length (drop 13 (c # cs))"
    by (rule length_dropWhile_le)
  then show "(dropWhile isDot (drop 13 (c # cs)), c # cs) \<in> measure length" by simp
next
  fix c :: char and cs :: string
  show "(cs, c # cs) \<in> measure length" by simp
qed

text \<open>
  \<open>/Program (\w*) invoke \[(\d)\]/g\<close> at the start of \<open>s\<close>: the first group, when it matches.
\<close>

definition matchInvoke :: "string \<Rightarrow> string option" where
  "matchInvoke s =
     (if startsWith s ''Program '' then
        (let programAddress = takeWhile isWord (drop 8 s);
             r = dropWhile isWord (drop 8 s)
         in if startsWith r '' invoke ['' then
              (case drop 9 r of
                 d # b # _ \<Rightarrow> if isDigit d \<and> b = CHR '']'' then Some programAddress else None
               | _ \<Rightarrow> None)
            else None)
      else None)"

text \<open>
  \<open>Array.from(log.matchAll(regex))\<close>, of which the source reads \<open>matches.length > 0\<close> and
  \<open>matches[0][1]\<close> only: the first group of the leftmost match.
\<close>

fun findInvoke :: "string \<Rightarrow> string option" where
  "findInvoke [] = None"
| "findInvoke (c # cs) =
     (case matchInvoke (c # cs) of Some programAddress \<Rightarrow> Some programAddress
      | None \<Rightarrow> findInvoke cs)"

text \<open>
  \<open>/Program \w* consumed (\d*) (.*)/g\<close> at the start of \<open>s\<close>: the two groups and what is
  left of \<open>s\<close> after the match.
\<close>

definition matchConsumed :: "string \<Rightarrow> (string \<times> string \<times> string) option" where
  "matchConsumed s =
     (if startsWith s ''Program '' then
        (let r1 = dropWhile isWord (drop 8 s)
         in if startsWith r1 '' consumed '' then
              (let p1 = takeWhile isDigit (drop 10 r1);
                   r2 = dropWhile isDigit (drop 10 r1)
               in if startsWith r2 '' '' then
                    Some (p1, takeWhile isDot (drop 1 r2), dropWhile isDot (drop 1 r2))
                  else None)
            else None)
      else None)"

lemma matchConsumed_shorter:
  assumes "matchConsumed s = Some (p1, p2, rest)"
  shows "length rest < length s"
proof -
  from assms have sw: "startsWith s ''Program ''"
    by (simp add: matchConsumed_def split: if_splits)
  then have ne: "s \<noteq> []" by (cases s) simp_all
  define r1 where "r1 = dropWhile isWord (drop 8 s)"
  define r2 where "r2 = dropWhile isDigit (drop 10 r1)"
  from assms sw have rest: "rest = dropWhile isDot (drop 1 r2)"
    by (simp add: matchConsumed_def Let_def r1_def r2_def split: if_splits)
  have "length rest \<le> length (drop 1 r2)"
    unfolding rest by (rule length_dropWhile_le)
  also have "\<dots> \<le> length r2" by simp
  also have "\<dots> \<le> length (drop 10 r1)"
    unfolding r2_def by (rule length_dropWhile_le)
  also have "\<dots> \<le> length r1" by simp
  also have "\<dots> \<le> length (drop 8 s)"
    unfolding r1_def by (rule length_dropWhile_le)
  also have "\<dots> < length s" using ne by simp
  finally show ?thesis .
qed

text \<open>
  \<open>log.replace(/Program \w* consumed (\d*) (.*)/g, (match, p1, p2) => ...)\<close>: the text that
  the replacement returns, with \<open>`Program consumed: ${p1} ${p2}`\<close> for every match.
\<close>

function replaceConsumed :: "string \<Rightarrow> string" where
  "replaceConsumed [] = []"
| "replaceConsumed (c # cs) =
     (case matchConsumed (c # cs) of
        Some (p1, p2, rest) \<Rightarrow> ''Program consumed: '' @ p1 @ '' '' @ p2 @ replaceConsumed rest
      | None \<Rightarrow> c # replaceConsumed cs)"
  by pat_completeness auto
termination
  by (relation "measure length") (auto dest: matchConsumed_shorter)

text \<open>
  The first group \<open>p1\<close> of every match of that replacement, in the order of the matches:
  the arguments on which its callback runs (see \<open>consumedCallback\<close>).
\<close>

function consumedGroups :: "string \<Rightarrow> string list" where
  "consumedGroups [] = []"
| "consumedGroups (c # cs) =
     (case matchConsumed (c # cs) of
        Some (p1, p2, rest) \<Rightarrow> p1 # consumedGroups rest
      | None \<Rightarrow> consumedGroups cs)"
  by pat_completeness auto
termination
  by (relation "measure length") (auto dest: matchConsumed_shorter)

subsection \<open>Collaborators\<close>

text \<open>
  The source imports \<open>getTransactionInstructionError\<close>, \<open>getProgramName\<close> and the manifest
  SDK, and uses Node's \<open>Buffer\<close>; none of them is part of the file. They are parameters:
  \<^item> \<open>getTransactionInstructionError\<close> gives the index and message of the failing
    instruction, or nothing;
  \<^item> \<open>getProgramName\<close> gives the label of an address on a cluster;
  \<^item> \<open>base64\<close> is \<open>Buffer.from(data, 'base64')\<close>;
  \<^item> \<open>deserializeFillLog\<close> is lines 151 to 172 on the bytes after the discriminator:
    \<open>manifest.FillLog.deserialize\<close>, the three conversions and
    \<open>JSON.stringify(deserializedFillLog.pretty(), null, 2)\<close>. It gives the text, or
    \<open>None\<close> when the SDK throws (the source has no \<open>try\<close> around it).
\<close>

type_synonym byte = "8 word"

record prettyError =
  index :: int
  message :: string

record ('e, 'c) collaborators =
  getTransactionInstructionError :: "'e \<Rightarrow> prettyError option"
  getProgramName :: "string \<Rightarrow> 'c \<Rightarrow> string"
  base64 :: "string \<Rightarrow> byte list"
  deserializeFillLog :: "byte list \<Rightarrow> string option"

subsection \<open>\<open>isEqualBytes\<close>\<close>

text \<open>The \<open>for\<close> loop of \<open>isEqualBytes\<close>, over both arrays at once.\<close>

fun bytesLoop :: "byte list \<Rightarrow> byte list \<Rightarrow> bool" where
  "bytesLoop [] ys = True"
| "bytesLoop (x # xs) [] = False"
| "bytesLoop (x # xs) (y # ys) = (if x \<noteq> y then False else bytesLoop xs ys)"

definition isEqualBytes :: "byte list \<Rightarrow> byte list \<Rightarrow> bool" where
  "isEqualBytes bytes1 bytes2 =
     (if length bytes1 \<noteq> length bytes2 then False else bytesLoop bytes1 bytes2)"

subsection \<open>The body of \<open>logs.forEach\<close>\<close>

definition andThen :: "error + 'a \<Rightarrow> ('a \<Rightarrow> error + 'b) \<Rightarrow> error + 'b" where
  "andThen r f = (case r of Inl e \<Rightarrow> Inl e | Inr x \<Rightarrow> f x)"

text \<open>\<open>xs[xs.length - 1]\<close> changed in place by \<open>f\<close>, on a non-empty array.\<close>

definition modifyLast :: "('a \<Rightarrow> 'a) \<Rightarrow> 'a list \<Rightarrow> 'a list" where
  "modifyLast f xs = xs[length xs - 1 := f (xs ! (length xs - 1))]"

text \<open>
  \<open>prettyLogs[prettyLogs.length - 1].logs.push({ prefix: prefixBuilder(depth), style, text })\<close>.
  On an empty \<open>prettyLogs\<close> the receiver is \<open>undefined\<close> and reading \<open>.logs\<close> throws
  before \<open>prefixBuilder\<close> is called.
\<close>

definition pushLog :: "style \<Rightarrow> string \<Rightarrow> state \<Rightarrow> error + state" where
  "pushLog sty txt st =
     (if prettyLogs st = [] then Inl TypeError
      else (let (warned, p) = prefixBuilder (depth st)
            in Inr (st\<lparr>prettyLogs :=
                         modifyLast (\<lambda>t. t\<lparr>logs := logs t @ [\<lparr>text' = txt, prefix = p, style = sty\<rparr>]\<rparr>)
                           (prettyLogs st),
                       console := console st @ warned\<rparr>)))"

text \<open>Lines 48 to 58: a line that starts with \<open>Program log:\<close>.\<close>

definition programLogBranch :: "state \<Rightarrow> string \<Rightarrow> error + state" where
  "programLogBranch st log = pushLog Muted (replaceLog log) st"

text \<open>Lines 59 and 60: a line that starts with \<open>Log truncated\<close>.\<close>

definition truncatedBranch :: "state \<Rightarrow> error + state" where
  "truncatedBranch st =
     (if prettyLogs st = [] then Inl TypeError
      else Inr (st\<lparr>prettyLogs := modifyLast (\<lambda>t. t\<lparr>truncated := True\<rparr>) (prettyLogs st)\<rparr>))"

text \<open>Lines 65 to 87: the invocation of \<open>programAddress\<close>.\<close>

definition invokeBranch ::
  "('e, 'c) collaborators \<Rightarrow> 'c \<Rightarrow> state \<Rightarrow> string \<Rightarrow> error + state" where
  "invokeBranch env cluster st programAddress =
     (let st1 = st\<lparr>currentProgram := currentProgram st @ [programAddress]\<rparr>;
          programName = getProgramName env programAddress cluster
      in andThen
           (if depth st1 = 0 then
              Inr (st1\<lparr>prettyLogs := prettyLogs st1 @
                     [\<lparr>invokedProgram = Some programAddress, logs = [], computeUnits = Num 0,
                       truncated = False, failed = False\<rparr>]\<rparr>)
            else pushLog Info (''Program invoked: '' @ programName) st1)
           (\<lambda>st2. Inr (st2\<lparr>depth := depth st2 + 1\<rparr>)))"

text \<open>Lines 88 to 95: a line that includes \<open>success\<close>.\<close>

definition successBranch :: "state \<Rightarrow> error + state" where
  "successBranch st =
     andThen (pushLog Success ''Program returned success''
                (st\<lparr>currentProgram := butlast (currentProgram st)\<rparr>))
       (\<lambda>st1. Inr (st1\<lparr>depth := depth st1 - 1\<rparr>))"

text \<open>
  Lines 96 to 113: a line that includes \<open>failed\<close>. \<open>instructionLog.failed = true\<close> throws
  when \<open>prettyLogs\<close> is empty.
\<close>

definition failedBranch :: "state \<Rightarrow> string \<Rightarrow> error + state" where
  "failedBranch st log =
     (let st1 = st\<lparr>currentProgram := butlast (currentProgram st)\<rparr>
      in if prettyLogs st1 = [] then Inl TypeError
         else
           (let st2 = st1\<lparr>prettyLogs := modifyLast (\<lambda>t. t\<lparr>failed := True\<rparr>) (prettyLogs st1)\<rparr>;
                currText = ''Program returned error: '' @ [CHR 0x22] @
                             slice log (indexOf log '': '' + 2) @ [CHR 0x22]
            in andThen
                 (if startsWith log ''failed''
                  then pushLog Warning (toUpperCase (charAt log 0) @ slice log 1)
                         (st2\<lparr>depth := depth st2 + 1\<rparr>)
                  else pushLog Warning currText st2)
                 (\<lambda>st3. Inr (st3\<lparr>depth := depth st3 - 1\<rparr>))))"

text \<open>
  The callback of the replacement at lines 127 to 135, run on the first group of every
  match: at depth 1 it adds \<open>Number.parseInt(p1)\<close> to the last trace.
\<close>

fun consumedCallback :: "state \<Rightarrow> string list \<Rightarrow> error + state" where
  "consumedCallback st [] = Inr st"
| "consumedCallback st (p1 # ps) =
     (if depth st = 1 then
        (if prettyLogs st = [] then Inl TypeError
         else consumedCallback
                (st\<lparr>prettyLogs :=
                      modifyLast (\<lambda>t. t\<lparr>computeUnits := plus_number (computeUnits t) (parseInt p1)\<rparr>)
                        (prettyLogs st)\<rparr>) ps)
      else consumedCallback st ps)"

definition manifestProgram :: string where
  "manifestProgram = ''MNFSTqtC93rEfYHB6hF82sKdZpUDFWkViLByLd1k1Ms''"

definition fillLogPrefix :: "byte list" where
  "fillLogPrefix = [58, 230, 242, 3, 75, 113, 4, 169]"

text \<open>Lines 144 to 175: the fill log of the manifest program.\<close>

definition fillLogBranch :: "('e, 'c) collaborators \<Rightarrow> state \<Rightarrow> string \<Rightarrow> error + state" where
  "fillLogBranch env st log =
     (if includes' log ''Program data: '' \<and> currentProgram st \<noteq> [] \<and>
         last (currentProgram st) = manifestProgram then
        (let buffer = base64 env (drop (length ''Program data: '') log)
         in if isEqualBytes fillLogPrefix (take 8 buffer) then
              (case deserializeFillLog env (drop 8 buffer) of
                 None \<Rightarrow> Inl DecodeError
               | Some pretty \<Rightarrow> pushLog Muted (''MFX Fill Log: '' @ [CHR 0x0A] @ pretty) st)
            else Inr st)
      else Inr st)"

text \<open>Lines 114 to 176: any other line.\<close>

definition defaultBranch :: "('e, 'c) collaborators \<Rightarrow> state \<Rightarrow> string \<Rightarrow> error + state" where
  "defaultBranch env st log =
     (let st1 = (if depth st = 0 then
                   st\<lparr>prettyLogs := prettyLogs st @
                        [\<lparr>invokedProgram = None, logs = [], computeUnits = Num 0,
                          truncated = False, failed = False\<rparr>],
                      depth := depth st + 1\<rparr>
                 else st);
          replaced = replaceConsumed log
      in andThen (consumedCallback st1 (consumedGroups log))
           (\<lambda>st2. andThen (pushLog Muted replaced st2)
              (\<lambda>st3. fillLogBranch env st3 replaced)))"

text \<open>The callback of \<open>logs.forEach\<close>, lines 47 to 178.\<close>

definition processLog :: "('e, 'c) collaborators \<Rightarrow> 'c \<Rightarrow> state \<Rightarrow> string \<Rightarrow> error + state" where
  "processLog env cluster st log =
     (if startsWith log ''Program log:'' then programLogBranch st log
      else if startsWith log ''Log truncated'' then truncatedBranch st
      else (case findInvoke log of
              Some programAddress \<Rightarrow> invokeBranch env cluster st programAddress
            | None \<Rightarrow>
                if includes' log ''success'' then successBranch st
                else if includes' log ''failed'' then failedBranch st log
                else defaultBranch env st log))"

fun forEach :: "(state \<Rightarrow> string \<Rightarrow> error + state) \<Rightarrow> state \<Rightarrow> string list \<Rightarrow> error + state" where
  "forEach f st [] = Inr st"
| "forEach f st (log # rest) = andThen (f st log) (\<lambda>st1. forEach f st1 rest)"

subsection \<open>After the loop, and the whole function\<close>

text \<open>
  Lines 180 to 202, on \<open>prettyLogs\<close>. After the first \<open>if\<close> the array is not empty when
  there is a \<open>prettyError\<close>, so \<open>prettyLogs[prettyError.index]\<close> is its last element.
  \<open>prefixBuilder(1)\<close> writes nothing to the console.
\<close>

definition attributeError :: "prettyError option \<Rightarrow> InstructionLogs list \<Rightarrow> InstructionLogs list" where
  "attributeError prettyError pl =
     (let pl1 = (if prettyError \<noteq> None \<and> length pl = 0 then
                   pl @ [\<lparr>invokedProgram = None, logs = [], computeUnits = Num 0,
                          truncated = False, failed = True\<rparr>]
                 else pl)
      in case prettyError of
           None \<Rightarrow> pl1
         | Some pe \<Rightarrow>
             if index pe = int (length pl1) - 1 then
               (let failedIx = pl1 ! nat (index pe)
                in if \<not> failed failedIx then
                     pl1[nat (index pe) :=
                           failedIx\<lparr>failed := True,
                                    logs := logs failedIx @
                                      [\<lparr>text' = ''Runtime error: '' @ message pe,
                                        prefix = snd (prefixBuilder 1), style = Warning\<rparr>]\<rparr>]
                   else pl1)
             else pl1)"

definition initialState :: state where
  "initialState = \<lparr>depth = 0, prettyLogs = [], currentProgram = [], console = []\<rparr>"

text \<open>
  \<open>parseProgramLogs(logs, error, cluster)\<close>. \<open>None\<close> is an \<open>error\<close> that is \<open>null\<close> (or
  falsy). The result is what the function returns, or the error it throws.
\<close>

definition parseProgramLogs ::
  "('e, 'c) collaborators \<Rightarrow> string list \<Rightarrow> 'e option \<Rightarrow> 'c \<Rightarrow> error + InstructionLogs list" where
  "parseProgramLogs env logs' err cluster =
     (let prettyError = (case err of None \<Rightarrow> None
                         | Some e \<Rightarrow> getTransactionInstructionError env e)
      in andThen (forEach (processLog env cluster) initialState logs')
           (\<lambda>st. Inr (attributeError prettyError (prettyLogs st))))"

text \<open>Collaborators to run the interpreter on examples: a program is named by its
  address, no error is attributed, and there is no fill log to decode.\<close>

definition plainCollaborators :: "(unit, unit) collaborators" where
  "plainCollaborators =
     \<lparr>getTransactionInstructionError = (\<lambda>_. None), getProgramName = (\<lambda>a _. a),
      base64 = (\<lambda>_. []), deserializeFillLog = (\<lambda>_. None)\<rparr>"

text \<open>The state after the one line \<open>Program A invoke [1]\<close> (see \<open>exampleState_reached\<close>).\<close>

definition exampleState :: state where
  "exampleState =
     \<lparr>depth = 1,
      prettyLogs = [\<lparr>invokedProgram = Some ''A'', logs = [], computeUnits = Num 0,
                     truncated = False, failed = False\<rparr>],
      currentProgram = [''A''], console = []\<rparr>"

subsection \<open>Lines by the branch that handles them\<close>

text \<open>
  A line reaches the last branch (lines 114 to 176) when none of the five tests before
  it holds. It is unmarked when, there, the regular expression for consumed compute
  units matches nowhere in it.
\<close>

definition reachesDefault :: "string \<Rightarrow> bool" where
  "reachesDefault log =
     (\<not> startsWith log ''Program log:'' \<and> \<not> startsWith log ''Log truncated'' \<and>
      findInvoke log = None \<and> \<not> includes' log ''success'' \<and> \<not> includes' log ''failed'')"

definition unmarked :: "string \<Rightarrow> bool" where
  "unmarked log = (reachesDefault log \<and> consumedGroups log = [])"

text \<open>The line \<open>Program <addr> invoke [<n>]\<close>.\<close>

definition invokeLine :: "string \<Rightarrow> string \<Rightarrow> string" where
  "invokeLine addr n = ''Program '' @ addr @ '' invoke ['' @ n @ '']''"

subsection \<open>Compute units credited to a trace\<close>

text \<open>
  The words of the specification on \<open>computeUnits\<close>: the sum of the values \<open><n>\<close> of the
  consumed lines that are processed for a trace while the depth is exactly 1. The sum
  is the one of arithmetic, on the integers that the digits \<open><n>\<close> denote; it is none
  when some \<open><n>\<close> has no digit. A line is processed by the consumption rule when it
  reaches the last branch; the depth there is the depth after a trace has been
  synthesized at depth 0, and the trace is the last one at that moment.
  \<open>credited step st logs k\<close> adds up, along the run of \<open>step\<close> over \<open>logs\<close> from \<open>st\<close>, what
  the lines credit to the trace of index \<open>k\<close>.
\<close>

definition plusValue :: "nat option \<Rightarrow> nat option \<Rightarrow> nat option" where
  "plusValue x y =
     (case x of None \<Rightarrow> None | Some a \<Rightarrow> (case y of None \<Rightarrow> None | Some b \<Rightarrow> Some (a + b)))"

fun sumValues :: "nat option list \<Rightarrow> nat option" where
  "sumValues [] = Some 0"
| "sumValues (x # xs) = plusValue x (sumValues xs)"

definition consumedUnits :: "string \<Rightarrow> nat option" where
  "consumedUnits log = sumValues (map mathInt (consumedGroups log))"

definition depthAtConsumption :: "state \<Rightarrow> int" where
  "depthAtConsumption st = (if depth st = 0 then 1 else depth st)"

definition traceAtConsumption :: "state \<Rightarrow> nat" where
  "traceAtConsumption st =
     (if depth st = 0 then length (prettyLogs st) else length (prettyLogs st) - 1)"

definition credit :: "state \<Rightarrow> string \<Rightarrow> nat \<Rightarrow> nat option" where
  "credit st log k =
     (if reachesDefault log \<and> depthAtConsumption st = 1 \<and> k = traceAtConsumption st
      then consumedUnits log else Some 0)"

fun credited ::
  "(state \<Rightarrow> string \<Rightarrow> error + state) \<Rightarrow> state \<Rightarrow> string list \<Rightarrow> nat \<Rightarrow> nat option" where
  "credited step st [] k = Some 0"
| "credited step st (log # rest) k =
     plusValue (credit st log k)
       (case step st log of Inl e \<Rightarrow> Some 0 | Inr st1 \<Rightarrow> credited step st1 rest k)"

text \<open>The compute units of the traces of a state, and the entry at an index (0 where
  there is no trace yet).\<close>

definition units :: "state \<Rightarrow> number list" where
  "units st = map computeUnits (prettyLogs st)"

definition unitsAt :: "number list \<Rightarrow> nat \<Rightarrow> number" where
  "unitsAt xs k = (if k < length xs then xs ! k else Num 0)"

text \<open>A nested invocation, and the state after its first two lines
  (see \<open>nestedState_reached\<close>).\<close>

definition nestedLogs :: "string list" where
  "nestedLogs =
     [''Program A invoke [1]'', ''Program B invoke [2]'',
      ''Program B consumed 7 of 9 compute units'', ''Program B success'',
      ''Program A consumed 100 of 200000 compute units'', ''Program A success'']"

definition nestedState :: state where
  "nestedState =
     \<lparr>depth = 2,
      prettyLogs = [\<lparr>invokedProgram = Some ''A'',
                     logs = [\<lparr>text' = ''Program invoked: B'', prefix = ''> '', style = Info\<rparr>],
                     computeUnits = Num 0, truncated = False, failed = False\<rparr>],
      currentProgram = [''A'', ''B''], console = []\<rparr>"

section \<open>Properties\<close>

lemma join_replicate_empty: "join (replicate n x) [] = concat (replicate n x)"
proof (induction n)
  case 0
  show ?case by simp
next
  case (Suc n)
  then show ?case by (cases n) simp_all
qed

text \<open>
  C7. For an indent level \<open>L \<ge> 1\<close> the prefix is \<open>L - 1\<close> copies of the indent token (two
  non-breaking spaces) followed by \<open>> \<close>, and nothing is written to the console; for
  \<open>L \<le> 0\<close> one diagnostic is written and the prefix is \<open>> \<close> alone.
\<close>

theorem prefixBuilder_levels:
  "(1 \<le> L \<longrightarrow>
      prefixBuilder L = ([], concat (replicate (nat (L - 1)) [CHR 0xA0, CHR 0xA0]) @ ''> '')) \<and>
   (L \<le> 0 \<longrightarrow> prefixBuilder L = ([indentWarning L], ''> ''))"
  by (simp add: prefixBuilder_def join_replicate_empty indentToken_def)

theorem prefixBuilder_levels_witness:
  "prefixBuilder 3 = ([], [CHR 0xA0, CHR 0xA0, CHR 0xA0, CHR 0xA0] @ ''> '') \<and>
   prefixBuilder 0 = ([indentWarning 0], ''> '') \<and>
   indentWarning 0 =
     ''Tried to build a prefix for a program log at indent level `0`. '' @
     ''Logs should only ever be built at indent level 1 or higher.''"
proof -
  have three: "nat (3 - 1) = Suc (Suc 0)" by simp
  have a: "prefixBuilder 3 = ([], [CHR 0xA0, CHR 0xA0, CHR 0xA0, CHR 0xA0] @ ''> '')"
    using prefixBuilder_levels [of 3] by (simp add: three numeral_2_eq_2)
  have b: "prefixBuilder 0 = ([indentWarning 0], ''> '')"
    using prefixBuilder_levels [of 0] by simp
  have c: "indentWarning 0 =
     ''Tried to build a prefix for a program log at indent level `0`. '' @
     ''Logs should only ever be built at indent level 1 or higher.''"
    by code_simp
  from a b c show ?thesis by simp
qed

subsection \<open>The last trace\<close>

lemma modifyLast_snoc: "modifyLast f (xs @ [x]) = xs @ [f x]"
  by (simp add: modifyLast_def)

lemma modifyLast_butlast: "xs \<noteq> [] \<Longrightarrow> modifyLast f xs = butlast xs @ [f (last xs)]"
proof -
  assume "xs \<noteq> []"
  then obtain ys y where "xs = ys @ [y]" by (metis append_butlast_last_id)
  then show ?thesis by (simp add: modifyLast_snoc)
qed

lemma exampleState_reached:
  "forEach (processLog env cluster) initialState [''Program A invoke [1]''] = Inr exampleState"
  by (simp add: initialState_def processLog_def matchInvoke_def isWord_def isDigit_def
      invokeBranch_def andThen_def exampleState_def)

subsection \<open>Lines processed while no trace is open\<close>

text \<open>
  C1. The claim is that \<open>parseProgramLogs\<close> returns on every input, also when the first
  line is a \<open>Program log:\<close> line, a truncation marker, a success marker or a failure
  marker. On each of these four inputs \<open>prettyLogs\<close> is still empty when the line is
  processed, \<open>prettyLogs[prettyLogs.length - 1]\<close> is \<open>undefined\<close>, and the function throws:
  for every collaborator, error value and cluster.
\<close>

theorem throws_without_open_trace:
  "parseProgramLogs env [''Program log: hi''] err cluster = Inl TypeError \<and>
   parseProgramLogs env [''Log truncated''] err cluster = Inl TypeError \<and>
   parseProgramLogs env [''Program A success''] err cluster = Inl TypeError \<and>
   parseProgramLogs env [''Program A failed: custom program error: 0x1''] err cluster =
     Inl TypeError"
  by (simp add: parseProgramLogs_def initialState_def processLog_def programLogBranch_def
      truncatedBranch_def successBranch_def failedBranch_def matchInvoke_def pushLog_def
      andThen_def)

subsection \<open>The truncation marker\<close>

lemma truncated_not_programLog:
  "startsWith line ''Log truncated'' \<Longrightarrow> \<not> startsWith line ''Program log:''"
  by (cases line) auto

text \<open>
  C5. A line that starts with \<open>Log truncated\<close>, processed while \<open>prettyLogs\<close> is not empty,
  sets \<open>truncated\<close> on the last trace and changes nothing else: the depth, the invocation
  stack and the console are the same, no trace is added, the traces before the last are
  the same, and the last trace keeps its other four fields (so no log line is added).
\<close>

theorem truncated_frame:
  assumes "startsWith line ''Log truncated''" and "prettyLogs st \<noteq> []"
  shows "\<exists>st'. processLog env cluster st line = Inr st' \<and>
           truncated (last (prettyLogs st')) \<and>
           depth st' = depth st \<and> currentProgram st' = currentProgram st \<and>
           console st' = console st \<and>
           length (prettyLogs st') = length (prettyLogs st) \<and>
           butlast (prettyLogs st') = butlast (prettyLogs st) \<and>
           invokedProgram (last (prettyLogs st')) = invokedProgram (last (prettyLogs st)) \<and>
           logs (last (prettyLogs st')) = logs (last (prettyLogs st)) \<and>
           computeUnits (last (prettyLogs st')) = computeUnits (last (prettyLogs st)) \<and>
           failed (last (prettyLogs st')) = failed (last (prettyLogs st))"
  using assms
  by (simp add: processLog_def truncated_not_programLog truncatedBranch_def modifyLast_butlast)

theorem truncated_frame_witness:
  "startsWith ''Log truncated before this'' ''Log truncated'' \<and> prettyLogs exampleState \<noteq> [] \<and>
   (\<exists>st'. processLog plainCollaborators () exampleState ''Log truncated before this'' = Inr st' \<and>
           truncated (last (prettyLogs st')) \<and>
           depth st' = depth exampleState \<and> currentProgram st' = currentProgram exampleState \<and>
           console st' = console exampleState \<and>
           length (prettyLogs st') = length (prettyLogs exampleState) \<and>
           butlast (prettyLogs st') = butlast (prettyLogs exampleState) \<and>
           invokedProgram (last (prettyLogs st')) = invokedProgram (last (prettyLogs exampleState)) \<and>
           logs (last (prettyLogs st')) = logs (last (prettyLogs exampleState)) \<and>
           computeUnits (last (prettyLogs st')) = computeUnits (last (prettyLogs exampleState)) \<and>
           failed (last (prettyLogs st')) = failed (last (prettyLogs exampleState)))"
proof -
  have h1: "startsWith ''Log truncated before this'' ''Log truncated''" by simp
  have h2: "prettyLogs exampleState \<noteq> []" by (simp add: exampleState_def)
  from h1 h2 truncated_frame [OF h1 h2, of plainCollaborators "()"] show ?thesis by blast
qed

subsection \<open>After the loop\<close>

lemma prefixBuilder_1: "prefixBuilder 1 = ([], ''> '')"
  by (simp add: prefixBuilder_def)

lemma attributeError_last:
  assumes "index pe = int (length (ys @ [y])) - 1"
  shows "attributeError (Some pe) (ys @ [y]) =
           (if failed y then ys @ [y]
            else ys @ [y\<lparr>failed := True,
                          logs := logs y @ [\<lparr>text' = ''Runtime error: '' @ message pe,
                                             prefix = snd (prefixBuilder 1), style = Warning\<rparr>]\<rparr>])"
proof -
  from assms have i: "nat (index pe) = length ys" by simp
  show ?thesis using assms by (simp add: attributeError_def Let_def i)
qed



subsection \<open>The passive rewrite of \<open>Program log:\<close> lines\<close>

text \<open>
  C8. The claim is that a line \<open>Program log: X\<close> is rewritten to \<open>Program logged: "X"\<close>, which
  contains \<open>X\<close>. The group \<open>(.*)\<close> of the regular expression stops at a line terminator: for
  the message of two lines \<open>a\<close> and \<open>b\<close> the closing quote comes after \<open>a\<close>, the text is not
  \<open>Program logged: "X"\<close>, and \<open>X\<close> does not occur in it.
\<close>

theorem programLog_with_line_feed:
  "parseProgramLogs env
     [''Program A invoke [1]'', ''Program log: '' @ (''a'' @ [CHR 0x0A] @ ''b'')] None cluster =
     Inr [\<lparr>invokedProgram = Some ''A'',
           logs = [\<lparr>text' = ''Program logged: '' @ [CHR 0x22] @ ''a'' @ [CHR 0x22, CHR 0x0A] @ ''b'',
                    prefix = ''> '', style = Muted\<rparr>],
           computeUnits = Num 0, truncated = False, failed = False\<rparr>] \<and>
   \<not> includes' (''Program logged: '' @ [CHR 0x22] @ ''a'' @ [CHR 0x22, CHR 0x0A] @ ''b'')
        (''a'' @ [CHR 0x0A] @ ''b'')"
  by (simp add: parseProgramLogs_def initialState_def processLog_def matchInvoke_def
      invokeBranch_def programLogBranch_def isWord_def isDigit_def isDot_def
      pushLog_def prefixBuilder_def modifyLast_def andThen_def attributeError_def)

subsection \<open>Compute units that are not a number\<close>

text \<open>
  C9. The claim is that \<open>computeUnits\<close> is always a non-negative integer. The group \<open>(\d*)\<close>
  also matches no digit at all, and \<open>Number.parseInt\<close> of the empty string is NaN: on the
  one line \<open>Program A consumed  x\<close> (two spaces) the trace has \<open>computeUnits = NaN\<close>.
\<close>

theorem consumed_without_digits_gives_NaN:
  "parseProgramLogs env [''Program A consumed  x''] None cluster =
     Inr [\<lparr>invokedProgram = None,
           logs = [\<lparr>text' = ''Program consumed:  x'', prefix = ''> '', style = Muted\<rparr>],
           computeUnits = NaN, truncated = False, failed = False\<rparr>]"
  by (simp add: parseProgramLogs_def initialState_def processLog_def matchInvoke_def
      defaultBranch_def matchConsumed_def isWord_def isDigit_def isDot_def parseInt_def
      mathInt_def pushLog_def prefixBuilder_def modifyLast_def fillLogBranch_def andThen_def
      attributeError_def)

subsection \<open>Input without markers\<close>

lemma processLog_default:
  "reachesDefault log \<Longrightarrow> processLog env cluster st log = defaultBranch env st log"
  by (simp add: reachesDefault_def processLog_def)

lemma replaceConsumed_no_match: "consumedGroups s = [] \<Longrightarrow> replaceConsumed s = s"
  by (induction s rule: replaceConsumed.induct) (auto split: option.splits)

lemma pushLog_snoc:
  "prettyLogs st = ys @ [y] \<Longrightarrow>
   pushLog sty txt st =
     Inr (st\<lparr>prettyLogs :=
                 ys @ [y\<lparr>logs := logs y @
                            [\<lparr>text' = txt, prefix = snd (prefixBuilder (depth st)), style = sty\<rparr>]\<rparr>],
            console := console st @ fst (prefixBuilder (depth st))\<rparr>)"
  by (simp add: pushLog_def modifyLast_snoc split: prod.splits)

lemma unmarked_step:
  assumes "unmarked log"
    and "currentProgram st = []" and "depth st = 1" and "prettyLogs st = ys @ [y]"
  shows "processLog env cluster st log =
           Inr (st\<lparr>prettyLogs :=
                  ys @ [y\<lparr>logs := logs y @ [\<lparr>text' = log, prefix = ''> '', style = Muted\<rparr>]\<rparr>]\<rparr>)"
  using assms
  by (simp add: unmarked_def processLog_default defaultBranch_def replaceConsumed_no_match
      andThen_def pushLog_snoc prefixBuilder_1 fillLogBranch_def)

lemma unmarked_steps:
  assumes "list_all unmarked ls"
    and "currentProgram st = []" and "depth st = 1" and "prettyLogs st = ys @ [y]"
  shows "forEach (processLog env cluster) st ls =
           Inr (st\<lparr>prettyLogs :=
                  ys @ [y\<lparr>logs := logs y @
                          map (\<lambda>log. \<lparr>text' = log, prefix = ''> '', style = Muted\<rparr>) ls\<rparr>]\<rparr>)"
  using assms
proof (induction ls arbitrary: st y)
  case Nil
  then show ?case by simp
next
  case (Cons l ls)
  let ?y1 = "y\<lparr>logs := logs y @ [\<lparr>text' = l, prefix = ''> '', style = Muted\<rparr>]\<rparr>"
  let ?st1 = "st\<lparr>prettyLogs := ys @ [?y1]\<rparr>"
  from Cons.prems have step: "processLog env cluster st l = Inr ?st1"
    by (simp add: unmarked_step)
  from Cons.prems have "forEach (processLog env cluster) ?st1 ls =
      Inr (?st1\<lparr>prettyLogs :=
             ys @ [?y1\<lparr>logs := logs ?y1 @
                     map (\<lambda>log. \<lparr>text' = log, prefix = ''> '', style = Muted\<rparr>) ls\<rparr>]\<rparr>)"
    by (intro Cons.IH) simp_all
  with step show ?case by (simp add: andThen_def)
qed

lemma unmarked_first:
  assumes "unmarked log"
  shows "processLog env cluster initialState log =
           Inr \<lparr>depth = 1,
                prettyLogs = [\<lparr>invokedProgram = None,
                               logs = [\<lparr>text' = log, prefix = ''> '', style = Muted\<rparr>],
                               computeUnits = Num 0, truncated = False, failed = False\<rparr>],
                currentProgram = [], console = []\<rparr>"
  using assms
  by (simp add: unmarked_def processLog_default defaultBranch_def replaceConsumed_no_match
      andThen_def initialState_def pushLog_def modifyLast_def prefixBuilder_1 fillLogBranch_def)

text \<open>
  C2, as the claim states it, fails: no line at all gives no trace, a truncation marker
  adds no log line, and a \<open>Program log:\<close> line is rewritten.
\<close>

theorem unmarked_lines_counterexample:
  "parseProgramLogs plainCollaborators [] None () = Inr [] \<and>
   parseProgramLogs plainCollaborators [''hello'', ''Log truncated''] None () =
     Inr [\<lparr>invokedProgram = None,
           logs = [\<lparr>text' = ''hello'', prefix = ''> '', style = Muted\<rparr>],
           computeUnits = Num 0, truncated = True, failed = False\<rparr>] \<and>
   parseProgramLogs plainCollaborators [''hello'', ''Program log: x''] None () =
     Inr [\<lparr>invokedProgram = None,
           logs = [\<lparr>text' = ''hello'', prefix = ''> '', style = Muted\<rparr>,
                   \<lparr>text' = ''Program logged: '' @ [CHR 0x22] @ ''x'' @ [CHR 0x22],
                    prefix = ''> '', style = Muted\<rparr>],
           computeUnits = Num 0, truncated = False, failed = False\<rparr>]"
  by code_simp

text \<open>
  C2, amended. For a non-empty input of unmarked lines (no line starts with
  \<open>Program log:\<close> or \<open>Log truncated\<close>, is an invocation, includes \<open>success\<close> or \<open>failed\<close>,
  or has a match of the consumed pattern) and no error, the result is one trace with no
  invoked program, 0 compute units, not truncated, not failed, whose logs are the input
  lines in order, each muted, with the prefix of depth 1.
\<close>

theorem unmarked_lines_one_trace:
  assumes "ls \<noteq> []" and "list_all unmarked ls"
  shows "parseProgramLogs env ls None cluster =
           Inr [\<lparr>invokedProgram = None,
                 logs = map (\<lambda>log. \<lparr>text' = log, prefix = ''> '', style = Muted\<rparr>) ls,
                 computeUnits = Num 0, truncated = False, failed = False\<rparr>]"
proof -
  from assms obtain l rest where ls: "ls = l # rest" by (cases ls) auto
  let ?y = "\<lparr>invokedProgram = None,
             logs = [\<lparr>text' = l, prefix = ''> '', style = Muted\<rparr>],
             computeUnits = Num 0, truncated = False, failed = False\<rparr>"
  let ?st1 = "\<lparr>depth = 1, prettyLogs = [?y], currentProgram = [], console = []\<rparr>"
  from assms ls have first: "processLog env cluster initialState l = Inr ?st1"
    by (simp add: unmarked_first)
  from assms ls have "forEach (processLog env cluster) ?st1 rest =
     Inr (?st1\<lparr>prettyLogs :=
            [] @ [?y\<lparr>logs := logs ?y @
                    map (\<lambda>log. \<lparr>text' = log, prefix = ''> '', style = Muted\<rparr>) rest\<rparr>]\<rparr>)"
    by (intro unmarked_steps) simp_all
  with first ls show ?thesis
    by (simp add: parseProgramLogs_def andThen_def attributeError_def)
qed

theorem unmarked_lines_one_trace_witness:
  "[''hello'', ''Instruction: Transfer''] \<noteq> [] \<and>
   list_all unmarked [''hello'', ''Instruction: Transfer''] \<and>
   parseProgramLogs plainCollaborators [''hello'', ''Instruction: Transfer''] None () =
     Inr [\<lparr>invokedProgram = None,
           logs = [\<lparr>text' = ''hello'', prefix = ''> '', style = Muted\<rparr>,
                   \<lparr>text' = ''Instruction: Transfer'', prefix = ''> '', style = Muted\<rparr>],
           computeUnits = Num 0, truncated = False, failed = False\<rparr>]"
proof -
  have h1: "[''hello'', ''Instruction: Transfer''] \<noteq> []" by simp
  have h2: "list_all unmarked [''hello'', ''Instruction: Transfer'']" by code_simp
  from h1 h2 unmarked_lines_one_trace [OF h1 h2, of plainCollaborators "()"]
  show ?thesis by simp
qed

subsection \<open>The failure marker\<close>

lemma pushLog_butlast:
  "prettyLogs st \<noteq> [] \<Longrightarrow>
   pushLog sty txt st =
     Inr (st\<lparr>prettyLogs := butlast (prettyLogs st) @
                  [(last (prettyLogs st))\<lparr>logs := logs (last (prettyLogs st)) @
                      [\<lparr>text' = txt, prefix = snd (prefixBuilder (depth st)), style = sty\<rparr>]\<rparr>],
            console := console st @ fst (prefixBuilder (depth st))\<rparr>)"
  by (simp add: pushLog_def modifyLast_butlast split: prod.splits)

lemma startsWith_colon_space:
  "startsWith (c # pre @ CHR '':'' # CHR '' '' # m) '': '' = startsWith (c # pre @ '':'') '': ''"
  by (cases pre) auto

lemma indexOf_first:
  "\<not> includes' (pre @ '':'') '': '' \<Longrightarrow>
   indexOf (pre @ CHR '':'' # CHR '' '' # m) '': '' = int (length pre)"
proof (induction pre)
  case Nil
  show ?case by simp
next
  case (Cons c pre)
  from Cons.prems have a: "\<not> startsWith (c # pre @ '':'') '': ''"
    and b: "\<not> includes' (pre @ '':'') '': ''" by simp_all
  from a have "\<not> startsWith (c # pre @ CHR '':'' # CHR '' '' # m) '': ''"
    by (subst startsWith_colon_space)
  with Cons.IH [OF b] show ?case by (simp add: Let_def)
qed

lemma slice_after: "slice (pre @ CHR '':'' # CHR '' '' # m) (int (length pre) + 2) = m"
  by (simp add: slice_def nat_add_distrib)

lemma upperChar_f: "upperChar (CHR ''f'') = CHR ''F''"
  by code_simp

lemma sentence_case:
  "startsWith log ''failed'' \<Longrightarrow> toUpperCase (charAt log 0) @ slice log 1 = CHR ''F'' # tl log"
  by (cases log) (auto simp: charAt_def toUpperCase_def upperChar_f slice_def)

text \<open>
  C4, as the claim states it, fails. The test for \<open>success\<close> comes before the test for
  \<open>failed\<close>, so a failure line that also includes \<open>success\<close> is taken for a success marker
  and the trace is not marked failed. And a failure line may have no \<open>: \<close>: then
  \<open>indexOf\<close> gives -1 and the text is built from the line without its first character.
\<close>

theorem failed_line_counterexample:
  "includes' ''Program A failed: unsuccessful'' ''failed'' \<and>
   \<not> startsWith ''Program A failed: unsuccessful'' ''Program log:'' \<and>
   \<not> startsWith ''Program A failed: unsuccessful'' ''Log truncated'' \<and>
   findInvoke ''Program A failed: unsuccessful'' = None \<and>
   parseProgramLogs plainCollaborators
     [''Program A invoke [1]'', ''Program A failed: unsuccessful''] None () =
     Inr [\<lparr>invokedProgram = Some ''A'',
           logs = [\<lparr>text' = ''Program returned success'', prefix = ''> '', style = Success\<rparr>],
           computeUnits = Num 0, truncated = False, failed = False\<rparr>] \<and>
   \<not> includes' ''Program A failed'' '': '' \<and>
   parseProgramLogs plainCollaborators
     [''Program A invoke [1]'', ''Program A failed''] None () =
     Inr [\<lparr>invokedProgram = Some ''A'',
           logs = [\<lparr>text' = ''Program returned error: '' @ [CHR 0x22] @ ''rogram A failed'' @
                             [CHR 0x22],
                    prefix = ''> '', style = Warning\<rparr>],
           computeUnits = Num 0, truncated = False, failed = True\<rparr>]"
  by code_simp

lemma indexOf_absent: "\<not> includes' s p \<Longrightarrow> indexOf s p = - 1"
  by (induction s) (auto simp: Let_def)

lemma pick_text: "\<exists>t. x = g t \<and> P t \<Longrightarrow> (\<And>t. P t \<Longrightarrow> t = v) \<Longrightarrow> x = g v"
  by auto

text \<open>
  C4, amended. Let a line include \<open>failed\<close> and not \<open>success\<close>, start with neither
  \<open>Program log:\<close> nor \<open>Log truncated\<close>, and be no invocation, and let \<open>prettyLogs\<close> be not
  empty. Then the invocation stack is popped, the last trace is marked failed, and
  exactly one warning line is appended to it. If the line starts with \<open>failed\<close>, the line
  is built at the depth plus one, its text is the line with its first character in
  upper case, and the depth is in the end what it was. Otherwise the line is built at
  the current depth and the depth goes down by one; its text is
  \<open>Program returned error: "m"\<close>, where \<open>m\<close> follows the first \<open>: \<close> of the line, and
  where the line has no \<open>: \<close>, \<open>m\<close> is the line without its first character.
\<close>

theorem failed_line:
  assumes "includes' log ''failed''" and "\<not> includes' log ''success''"
    and "\<not> startsWith log ''Program log:''" and "\<not> startsWith log ''Log truncated''"
    and "findInvoke log = None" and "prettyLogs st \<noteq> []"
  shows "\<exists>txt.
           processLog env cluster st log =
             Inr (st\<lparr>currentProgram := butlast (currentProgram st),
                    prettyLogs := butlast (prettyLogs st) @
                      [(last (prettyLogs st))
                         \<lparr>failed := True,
                          logs := logs (last (prettyLogs st)) @
                            [\<lparr>text' = txt,
                              prefix = snd (prefixBuilder
                                (if startsWith log ''failed'' then depth st + 1 else depth st)),
                              style = Warning\<rparr>]\<rparr>],
                    console := console st @
                      fst (prefixBuilder
                        (if startsWith log ''failed'' then depth st + 1 else depth st)),
                    depth := (if startsWith log ''failed'' then depth st + 1 else depth st) - 1\<rparr>) \<and>
           (startsWith log ''failed'' \<longrightarrow> txt = CHR ''F'' # tl log) \<and>
           (\<not> startsWith log ''failed'' \<and> log = pre @ '': '' @ m \<and>
              \<not> includes' (pre @ '':'') '': '' \<longrightarrow>
              txt = ''Program returned error: '' @ [CHR 0x22] @ m @ [CHR 0x22]) \<and>
           (\<not> startsWith log ''failed'' \<and> \<not> includes' log '': '' \<longrightarrow>
              txt = ''Program returned error: '' @ [CHR 0x22] @ drop 1 log @ [CHR 0x22])"
proof -
  from assms have branch: "processLog env cluster st log = failedBranch st log"
    by (simp add: processLog_def)
  show ?thesis
  proof (cases "startsWith log ''failed''")
    case True
    with assms(6) have "processLog env cluster st log =
             Inr (st\<lparr>currentProgram := butlast (currentProgram st),
                    prettyLogs := butlast (prettyLogs st) @
                      [(last (prettyLogs st))
                         \<lparr>failed := True,
                          logs := logs (last (prettyLogs st)) @
                            [\<lparr>text' = CHR ''F'' # tl log,
                              prefix = snd (prefixBuilder (depth st + 1)), style = Warning\<rparr>]\<rparr>],
                    console := console st @ fst (prefixBuilder (depth st + 1)),
                    depth := depth st + 1 - 1\<rparr>)"
      unfolding branch
      by (simp add: failedBranch_def Let_def andThen_def pushLog_butlast modifyLast_butlast
          sentence_case)
    with True show ?thesis by simp
  next
    case False
    let ?txt = "''Program returned error: '' @ [CHR 0x22] @
                  slice log (indexOf log '': '' + 2) @ [CHR 0x22]"
    from False assms(6) have run: "processLog env cluster st log =
             Inr (st\<lparr>currentProgram := butlast (currentProgram st),
                    prettyLogs := butlast (prettyLogs st) @
                      [(last (prettyLogs st))
                         \<lparr>failed := True,
                          logs := logs (last (prettyLogs st)) @
                            [\<lparr>text' = ?txt,
                              prefix = snd (prefixBuilder (depth st)), style = Warning\<rparr>]\<rparr>],
                    console := console st @ fst (prefixBuilder (depth st)),
                    depth := depth st - 1\<rparr>)"
      unfolding branch
      by (simp add: failedBranch_def Let_def andThen_def pushLog_butlast modifyLast_butlast)
    have first: "slice log (indexOf log '': '' + 2) = m"
      if "log = pre @ '': '' @ m" and "\<not> includes' (pre @ '':'') '': ''"
      using that by (simp add: indexOf_first slice_after)
    have absent: "slice log (indexOf log '': '' + 2) = drop 1 log" if "\<not> includes' log '': ''"
      using that by (simp add: indexOf_absent slice_def)
    from False run first absent show ?thesis
      by (intro exI [of _ ?txt]) auto
  qed
qed

theorem failed_line_witness:
  "processLog plainCollaborators () exampleState ''Program A failed: custom program error: 0x1'' =
     Inr \<lparr>depth = 0,
          prettyLogs =
            [\<lparr>invokedProgram = Some ''A'',
              logs = [\<lparr>text' = ''Program returned error: '' @ [CHR 0x22] @
                               ''custom program error: 0x1'' @ [CHR 0x22],
                       prefix = ''> '', style = Warning\<rparr>],
              computeUnits = Num 0, truncated = False, failed = True\<rparr>],
          currentProgram = [], console = []\<rparr> \<and>
   processLog plainCollaborators () exampleState ''failed to verify: x'' =
     Inr \<lparr>depth = 1,
          prettyLogs =
            [\<lparr>invokedProgram = Some ''A'',
              logs = [\<lparr>text' = ''Failed to verify: x'',
                       prefix = [CHR 0xA0, CHR 0xA0] @ ''> '', style = Warning\<rparr>],
              computeUnits = Num 0, truncated = False, failed = True\<rparr>],
          currentProgram = [], console = []\<rparr> \<and>
   processLog plainCollaborators () exampleState ''Program A failed'' =
     Inr \<lparr>depth = 0,
          prettyLogs =
            [\<lparr>invokedProgram = Some ''A'',
              logs = [\<lparr>text' = ''Program returned error: '' @ [CHR 0x22] @
                               ''rogram A failed'' @ [CHR 0x22],
                       prefix = ''> '', style = Warning\<rparr>],
              computeUnits = Num 0, truncated = False, failed = True\<rparr>],
          currentProgram = [], console = []\<rparr>"
proof -
  let ?l1 = "''Program A failed: custom program error: 0x1''"
  let ?l2 = "''failed to verify: x''"
  let ?l3 = "''Program A failed''"
  have ne: "prettyLogs exampleState \<noteq> []" by (simp add: exampleState_def)
  have a1: "includes' ?l1 ''failed''" and a2: "\<not> includes' ?l1 ''success''"
    and a3: "\<not> startsWith ?l1 ''Program log:''" and a4: "\<not> startsWith ?l1 ''Log truncated''"
    and a5: "findInvoke ?l1 = None"
    by code_simp+
  have b1: "includes' ?l2 ''failed''" and b2: "\<not> includes' ?l2 ''success''"
    and b3: "\<not> startsWith ?l2 ''Program log:''" and b4: "\<not> startsWith ?l2 ''Log truncated''"
    and b5: "findInvoke ?l2 = None"
    by code_simp+
  have d1: "includes' ?l3 ''failed''" and d2: "\<not> includes' ?l3 ''success''"
    and d3: "\<not> startsWith ?l3 ''Program log:''" and d4: "\<not> startsWith ?l3 ''Log truncated''"
    and d5: "findInvoke ?l3 = None"
    by code_simp+
  have c1: "\<not> startsWith ?l1 ''failed'' \<and>
            ?l1 = ''Program A failed'' @ '': '' @ ''custom program error: 0x1'' \<and>
            \<not> includes' (''Program A failed'' @ '':'') '': ''"
    by simp
  have c2: "startsWith ?l2 ''failed'' \<and> CHR ''F'' # tl ?l2 = ''Failed to verify: x''" by simp
  have c3: "\<not> startsWith ?l3 ''failed'' \<and> \<not> includes' ?l3 '': '' \<and>
            drop 1 ?l3 = ''rogram A failed''" by simp
  have n1: "startsWith ?l1 ''failed'' = False" and n2: "startsWith ?l2 ''failed'' = True"
    and n3: "startsWith ?l3 ''failed'' = False" by simp_all
  have p1: "prefixBuilder 1 = ([], ''> '')" by (simp add: prefixBuilder_def)
  have p2: "prefixBuilder 2 = ([], [CHR 0xA0, CHR 0xA0] @ ''> '')"
    by (simp add: prefixBuilder_def indentToken_def)
  have r1: "processLog plainCollaborators () exampleState ?l1 =
    Inr (exampleState\<lparr>currentProgram := butlast (currentProgram exampleState),
           prettyLogs := butlast (prettyLogs exampleState) @
             [(last (prettyLogs exampleState))
                \<lparr>failed := True,
                 logs := logs (last (prettyLogs exampleState)) @
                   [\<lparr>text' = ''Program returned error: '' @ [CHR 0x22] @
                       ''custom program error: 0x1'' @ [CHR 0x22],
                     prefix = snd (prefixBuilder
                       (if startsWith ?l1 ''failed'' then depth exampleState + 1
                        else depth exampleState)),
                     style = Warning\<rparr>]\<rparr>],
           console := console exampleState @
             fst (prefixBuilder
               (if startsWith ?l1 ''failed'' then depth exampleState + 1
                else depth exampleState)),
           depth := (if startsWith ?l1 ''failed'' then depth exampleState + 1
                     else depth exampleState) - 1\<rparr>)"
    by (rule pick_text [OF failed_line [OF a1 a2 a3 a4 a5 ne, of plainCollaborators "()"
          "''Program A failed''" "''custom program error: 0x1''"]]) (use c1 in blast)
  have r2: "processLog plainCollaborators () exampleState ?l2 =
    Inr (exampleState\<lparr>currentProgram := butlast (currentProgram exampleState),
           prettyLogs := butlast (prettyLogs exampleState) @
             [(last (prettyLogs exampleState))
                \<lparr>failed := True,
                 logs := logs (last (prettyLogs exampleState)) @
                   [\<lparr>text' = ''Failed to verify: x'',
                     prefix = snd (prefixBuilder
                       (if startsWith ?l2 ''failed'' then depth exampleState + 1
                        else depth exampleState)),
                     style = Warning\<rparr>]\<rparr>],
           console := console exampleState @
             fst (prefixBuilder
               (if startsWith ?l2 ''failed'' then depth exampleState + 1
                else depth exampleState)),
           depth := (if startsWith ?l2 ''failed'' then depth exampleState + 1
                     else depth exampleState) - 1\<rparr>)"
    by (rule pick_text [OF failed_line [OF b1 b2 b3 b4 b5 ne, of plainCollaborators "()"
          "[]" "[]"]]) (use c2 in simp)
  have r3: "processLog plainCollaborators () exampleState ?l3 =
    Inr (exampleState\<lparr>currentProgram := butlast (currentProgram exampleState),
           prettyLogs := butlast (prettyLogs exampleState) @
             [(last (prettyLogs exampleState))
                \<lparr>failed := True,
                 logs := logs (last (prettyLogs exampleState)) @
                   [\<lparr>text' = ''Program returned error: '' @ [CHR 0x22] @
                       ''rogram A failed'' @ [CHR 0x22],
                     prefix = snd (prefixBuilder
                       (if startsWith ?l3 ''failed'' then depth exampleState + 1
                        else depth exampleState)),
                     style = Warning\<rparr>]\<rparr>],
           console := console exampleState @
             fst (prefixBuilder
               (if startsWith ?l3 ''failed'' then depth exampleState + 1
                else depth exampleState)),
           depth := (if startsWith ?l3 ''failed'' then depth exampleState + 1
                     else depth exampleState) - 1\<rparr>)"
    by (rule pick_text [OF failed_line [OF d1 d2 d3 d4 d5 ne, of plainCollaborators "()"
          "[]" "[]"]]) (use c3 in simp)
  from r1 have 1: "processLog plainCollaborators () exampleState ?l1 =
     Inr \<lparr>depth = 0,
          prettyLogs =
            [\<lparr>invokedProgram = Some ''A'',
              logs = [\<lparr>text' = ''Program returned error: '' @ [CHR 0x22] @
                               ''custom program error: 0x1'' @ [CHR 0x22],
                       prefix = ''> '', style = Warning\<rparr>],
              computeUnits = Num 0, truncated = False, failed = True\<rparr>],
          currentProgram = [], console = []\<rparr>"
    unfolding n1 by (simp add: exampleState_def p1)
  from r2 have 2: "processLog plainCollaborators () exampleState ?l2 =
     Inr \<lparr>depth = 1,
          prettyLogs =
            [\<lparr>invokedProgram = Some ''A'',
              logs = [\<lparr>text' = ''Failed to verify: x'',
                       prefix = [CHR 0xA0, CHR 0xA0] @ ''> '', style = Warning\<rparr>],
              computeUnits = Num 0, truncated = False, failed = True\<rparr>],
          currentProgram = [], console = []\<rparr>"
    unfolding n2 by (simp add: exampleState_def p2)
  from r3 have 3: "processLog plainCollaborators () exampleState ?l3 =
     Inr \<lparr>depth = 0,
          prettyLogs =
            [\<lparr>invokedProgram = Some ''A'',
              logs = [\<lparr>text' = ''Program returned error: '' @ [CHR 0x22] @
                               ''rogram A failed'' @ [CHR 0x22],
                       prefix = ''> '', style = Warning\<rparr>],
              computeUnits = Num 0, truncated = False, failed = True\<rparr>],
          currentProgram = [], console = []\<rparr>"
    unfolding n3 by (simp add: exampleState_def p1)
  from 1 2 3 show ?thesis by simp
qed

subsection \<open>An invocation line with two or more digits\<close>

lemma isWord_simps: "\<not> isWord (CHR '' '')" "\<not> isWord (CHR '':'')" "\<not> isWord (CHR ''['')" "\<not> isWord (CHR '']'')"
  by (simp_all add: isWord_def)

lemma isDigit_simps: "\<not> isDigit (CHR '' '')" "\<not> isDigit (CHR '':'')" "\<not> isDigit (CHR '']'')"
  "\<not> isDigit (CHR ''P'')" "\<not> isDigit (CHR ''s'')" "\<not> isDigit (CHR ''f'')"
  by (simp_all add: isDigit_def)

lemma startsWith_set: "startsWith s p \<Longrightarrow> set p \<subseteq> set s"
  by (induction s p rule: startsWith.induct) auto

lemma includes_set: "includes' s p \<Longrightarrow> set p \<subseteq> set s"
proof (induction s)
  case Nil
  then show ?case by simp
next
  case (Cons c s)
  from Cons.prems have "startsWith (c # s) p \<or> includes' s p" by simp
  then show ?case
  proof
    assume "startsWith (c # s) p"
    then show ?thesis by (rule startsWith_set)
  next
    assume "includes' s p"
    then have "set p \<subseteq> set s" by (rule Cons.IH)
    then show ?thesis by auto
  qed
qed

lemma startsWith_split: "c \<notin> set p \<Longrightarrow> startsWith (a @ c # b) p = startsWith a p"
proof (induction a arbitrary: p)
  case Nil
  then show ?case by (cases p) auto
next
  case (Cons y a)
  then show ?case by (cases p) auto
qed

lemma includes_split:
  "c \<notin> set p \<Longrightarrow> includes' (a @ c # b) p = (includes' a p \<or> includes' b p)"
proof (induction a)
  case Nil
  then show ?case using startsWith_split [of c p "[]" b] by (cases p) auto
next
  case (Cons y a)
  then show ?case using startsWith_split [of c p "y # a" b] by auto
qed

lemma no_match_not_P:
  "c \<noteq> CHR ''P'' \<Longrightarrow> matchInvoke (c # cs) = None"
  "c \<noteq> CHR ''P'' \<Longrightarrow> matchConsumed (c # cs) = None"
  by (simp_all add: matchInvoke_def matchConsumed_def)

lemma word_before_space:
  "list_all isWord w \<Longrightarrow> list_all isWord p \<Longrightarrow>
   startsWith (w @ CHR '' '' # r) (p @ '' '') \<Longrightarrow> w = p"
proof (induction w arbitrary: p)
  case Nil
  then show ?case by (cases p) (auto simp: isWord_simps)
next
  case (Cons c w)
  then show ?case by (cases p) (auto simp: isWord_simps)
qed

lemma takeWhile_run: "list_all P xs \<Longrightarrow> \<not> P y \<Longrightarrow> takeWhile P (xs @ y # ys) = xs"
  by (induction xs) auto

lemma dropWhile_run: "list_all P xs \<Longrightarrow> \<not> P y \<Longrightarrow> dropWhile P (xs @ y # ys) = y # ys"
  by (induction xs) auto


lemma digits_tail:
  "list_all isDigit n \<Longrightarrow> findInvoke (n @ '']'') = None \<and> consumedGroups (n @ '']'') = []"
proof (induction n)
  case Nil
  show ?case by (simp add: no_match_not_P)
next
  case (Cons d n)
  then have "d \<noteq> CHR ''P''" by (auto simp: isDigit_simps)
  with Cons show ?case by (simp add: no_match_not_P)
qed

lemma invoke_tail:
  "list_all isDigit n \<Longrightarrow>
   findInvoke ('' invoke ['' @ n @ '']'') = None \<and> consumedGroups ('' invoke ['' @ n @ '']'') = []"
  using digits_tail [of n] by (simp add: no_match_not_P)

lemma program_then_invoke:
  "matchInvoke (''Program'' @ '' invoke ['' @ n @ '']'') = None"
  "matchConsumed (''Program'' @ '' invoke ['' @ n @ '']'') = None"
  by (simp_all add: matchInvoke_def matchConsumed_def isWord_def)

lemma no_match_in_addr:
  assumes "list_all isWord a"
  shows "matchInvoke (a @ '' invoke ['' @ n @ '']'') = None \<and>
         matchConsumed (a @ '' invoke ['' @ n @ '']'') = None"
proof (cases "startsWith (a @ '' invoke ['' @ n @ '']'') ''Program ''")
  case True
  have "list_all isWord ''Program''" by (simp add: isWord_def)
  with assms True have "a = ''Program''"
    using word_before_space [of a "''Program''" "''invoke ['' @ n @ '']''"] by simp
  then show ?thesis using program_then_invoke [of n] by simp
next
  case False
  then show ?thesis by (simp add: matchInvoke_def matchConsumed_def)
qed

lemma addr_tail:
  "list_all isWord a \<Longrightarrow> list_all isDigit n \<Longrightarrow>
   findInvoke (a @ '' invoke ['' @ n @ '']'') = None \<and>
   consumedGroups (a @ '' invoke ['' @ n @ '']'') = []"
proof (induction a)
  case Nil
  then show ?case using invoke_tail [of n] by simp
next
  case (Cons x a)
  from Cons.prems have "list_all isWord (x # a)" by simp
  from no_match_in_addr [OF this, of n]
  have "matchInvoke (x # a @ '' invoke ['' @ n @ '']'') = None"
    and "matchConsumed (x # a @ '' invoke ['' @ n @ '']'') = None" by simp_all
  with Cons show ?case by simp
qed

lemma invokeLine_no_match_at_start:
  assumes "list_all isWord addr" and "list_all isDigit n" and "2 \<le> length n"
  shows "matchInvoke (invokeLine addr n) = None \<and> matchConsumed (invokeLine addr n) = None"
proof -
  from assms obtain d1 d2 n' where n: "n = d1 # d2 # n'"
    by (cases n; cases "tl n") auto
  with assms have "isDigit d2" by simp
  then have d2: "d2 \<noteq> CHR '']''" by (auto simp: isDigit_simps)
  have tw: "takeWhile isWord (addr @ CHR '' '' # r) = addr"
    and dw: "dropWhile isWord (addr @ CHR '' '' # r) = CHR '' '' # r" for r
    using assms(1) by (simp_all add: takeWhile_run dropWhile_run isWord_simps)
  show ?thesis
    using d2 by (simp add: invokeLine_def matchInvoke_def matchConsumed_def tw dw n)
qed

lemma invokeLine_unrecognised:
  assumes "list_all isWord addr" and "list_all isDigit n" and "2 \<le> length n"
  shows "findInvoke (invokeLine addr n) = None \<and> consumedGroups (invokeLine addr n) = []"
proof -
  from invokeLine_no_match_at_start [OF assms]
  have "matchInvoke (''Program '' @ addr @ '' invoke ['' @ n @ '']'') = None"
    and "matchConsumed (''Program '' @ addr @ '' invoke ['' @ n @ '']'') = None"
    by (simp_all add: invokeLine_def)
  moreover from addr_tail [OF assms(1,2)]
  have "findInvoke (addr @ '' invoke ['' @ n @ '']'') = None"
    and "consumedGroups (addr @ '' invoke ['' @ n @ '']'') = []" by simp_all
  ultimately show ?thesis by (simp add: invokeLine_def no_match_not_P)
qed

lemma word_chars: "list_all isWord w \<Longrightarrow> CHR '':'' \<notin> set w \<and> CHR '' '' \<notin> set w"
  by (auto simp: list_all_iff isWord_simps)

lemma digit_chars:
  "list_all isDigit n \<Longrightarrow> CHR '':'' \<notin> set n \<and> CHR ''s'' \<notin> set n \<and> CHR ''f'' \<notin> set n"
  by (auto simp: list_all_iff isDigit_simps)

lemma invokeLine_no_colon:
  assumes "list_all isWord addr" and "list_all isDigit n"
  shows "CHR '':'' \<notin> set (invokeLine addr n)"
  using word_chars [OF assms(1)] digit_chars [OF assms(2)] by (simp add: invokeLine_def)

lemma invokeLine_includes:
  assumes "list_all isWord addr" and "list_all isDigit n"
  shows "includes' (invokeLine addr n) ''success'' = includes' addr ''success''"
    and "includes' (invokeLine addr n) ''failed'' = includes' addr ''failed''"
proof -
  have s: "\<not> includes' (n @ '']'') ''success''"
  proof
    assume "includes' (n @ '']'') ''success''"
    then have "set ''success'' \<subseteq> set (n @ '']'')" by (rule includes_set)
    with digit_chars [OF assms(2)] show False by simp
  qed
  have f: "\<not> includes' (n @ '']'') ''failed''"
  proof
    assume "includes' (n @ '']'') ''failed''"
    then have "set ''failed'' \<subseteq> set (n @ '']'')" by (rule includes_set)
    with digit_chars [OF assms(2)] show False by simp
  qed
  have split: "includes' (addr @ CHR '' '' # r) p = (includes' addr p \<or> includes' r p)"
    if "CHR '' '' \<notin> set p" for p r
    using that by (rule includes_split)
  from s show "includes' (invokeLine addr n) ''success'' = includes' addr ''success''"
    by (simp add: invokeLine_def split)
  from f show "includes' (invokeLine addr n) ''failed'' = includes' addr ''failed''"
    by (simp add: invokeLine_def split)
qed

lemma invokeLine_reachesDefault:
  assumes "list_all isWord addr" and "list_all isDigit n" and "2 \<le> length n"
    and "\<not> includes' addr ''success''" and "\<not> includes' addr ''failed''"
  shows "reachesDefault (invokeLine addr n)"
proof -
  have a: "\<not> startsWith (invokeLine addr n) ''Program log:''"
  proof
    assume "startsWith (invokeLine addr n) ''Program log:''"
    then have "set ''Program log:'' \<subseteq> set (invokeLine addr n)" by (rule startsWith_set)
    with invokeLine_no_colon [OF assms(1,2)] show False by simp
  qed
  have b: "\<not> startsWith (invokeLine addr n) ''Log truncated''"
    by (simp add: invokeLine_def)
  from a b invokeLine_unrecognised [OF assms(1-3)] invokeLine_includes [OF assms(1,2)] assms(4,5)
  show ?thesis by (simp add: reachesDefault_def)
qed

lemma invokeLine_no_data:
  assumes "list_all isWord addr" and "list_all isDigit n"
  shows "\<not> includes' (invokeLine addr n) ''Program data: ''"
proof
  assume "includes' (invokeLine addr n) ''Program data: ''"
  then have "set ''Program data: '' \<subseteq> set (invokeLine addr n)" by (rule includes_set)
  with invokeLine_no_colon [OF assms] show False by simp
qed

text \<open>
  C10, as the claim states it, fails: an address may include \<open>success\<close> (or \<open>failed\<close>), and
  then the line with two digits, which is no invocation, is taken for a success marker
  and does not reach the last branch.
\<close>

theorem two_digit_invoke_counterexample:
  "invokeLine ''success'' ''12'' = ''Program success invoke [12]'' \<and>
   list_all isWord ''success'' \<and> list_all isDigit ''12'' \<and>
   findInvoke ''Program success invoke [12]'' = None \<and>
   parseProgramLogs plainCollaborators
     [''Program A invoke [1]'', ''Program success invoke [12]''] None () =
     Inr [\<lparr>invokedProgram = Some ''A'',
           logs = [\<lparr>text' = ''Program returned success'', prefix = ''> '', style = Success\<rparr>],
           computeUnits = Num 0, truncated = False, failed = False\<rparr>]"
  by code_simp

text \<open>
  C10, amended. Let \<open>addr\<close> consist of word characters and include neither \<open>success\<close> nor
  \<open>failed\<close>, and let \<open>n\<close> be two or more digits. The line \<open>Program addr invoke [n]\<close> is no
  invocation marker. Processed in a state where the depth is 0 or a trace exists, it is
  handled by the last branch: at depth 0 a trace without invoked program is added and
  the depth becomes 1; the line is appended as it is, muted, to the last trace; the
  invocation stack is unchanged, and a depth other than 0 is unchanged.
\<close>

theorem two_digit_invoke_is_default:
  assumes "list_all isWord addr" and "list_all isDigit n" and "2 \<le> length n"
    and "\<not> includes' addr ''success''" and "\<not> includes' addr ''failed''"
    and "depth st = 0 \<or> prettyLogs st \<noteq> []"
  shows "findInvoke (invokeLine addr n) = None \<and>
         processLog env cluster st (invokeLine addr n) =
           (if depth st = 0 then
              Inr (st\<lparr>prettyLogs := prettyLogs st @
                       [\<lparr>invokedProgram = None,
                         logs = [\<lparr>text' = invokeLine addr n, prefix = ''> '', style = Muted\<rparr>],
                         computeUnits = Num 0, truncated = False, failed = False\<rparr>],
                     depth := 1\<rparr>)
            else
              Inr (st\<lparr>prettyLogs := butlast (prettyLogs st) @
                       [(last (prettyLogs st))
                          \<lparr>logs := logs (last (prettyLogs st)) @
                             [\<lparr>text' = invokeLine addr n,
                               prefix = snd (prefixBuilder (depth st)), style = Muted\<rparr>]\<rparr>],
                     console := console st @ fst (prefixBuilder (depth st))\<rparr>))"
proof -
  note un = invokeLine_unrecognised [OF assms(1-3)]
  from un have groups: "consumedGroups (invokeLine addr n) = []" by simp
  then have same: "replaceConsumed (invokeLine addr n) = invokeLine addr n"
    by (rule replaceConsumed_no_match)
  have branch: "processLog env cluster st (invokeLine addr n) =
      defaultBranch env st (invokeLine addr n)"
    using invokeLine_reachesDefault [OF assms(1-5)] by (rule processLog_default)
  have fill: "fillLogBranch env s (invokeLine addr n) = Inr s" for s
    using invokeLine_no_data [OF assms(1,2)] by (simp add: fillLogBranch_def)
  show ?thesis
  proof (cases "depth st = 0")
    case True
    then show ?thesis
      unfolding branch using un
      by (simp add: defaultBranch_def groups same andThen_def pushLog_def modifyLast_snoc
          prefixBuilder_1 fill)
  next
    case False
    with assms(6) have ne: "prettyLogs st \<noteq> []" by simp
    with False show ?thesis
      unfolding branch using un
      by (simp add: defaultBranch_def groups same andThen_def pushLog_butlast fill)
  qed
qed

theorem two_digit_invoke_is_default_witness:
  "list_all isWord ''B'' \<and> list_all isDigit ''12'' \<and> 2 \<le> length ''12'' \<and>
   \<not> includes' ''B'' ''success'' \<and> \<not> includes' ''B'' ''failed'' \<and>
   invokeLine ''B'' ''12'' = ''Program B invoke [12]'' \<and>
   findInvoke ''Program B invoke [12]'' = None \<and>
   processLog plainCollaborators () exampleState ''Program B invoke [12]'' =
     Inr \<lparr>depth = 1,
          prettyLogs =
            [\<lparr>invokedProgram = Some ''A'',
              logs = [\<lparr>text' = ''Program B invoke [12]'', prefix = ''> '', style = Muted\<rparr>],
              computeUnits = Num 0, truncated = False, failed = False\<rparr>],
          currentProgram = [''A''], console = []\<rparr>"
proof -
  have h1: "list_all isWord ''B''" and h2: "list_all isDigit ''12''"
    and h3: "2 \<le> length ''12''"
    and h4: "\<not> includes' ''B'' ''success''" and h5: "\<not> includes' ''B'' ''failed''"
    by (simp_all add: isWord_def isDigit_def)
  have h6: "depth exampleState = 0 \<or> prettyLogs exampleState \<noteq> []"
    by (simp add: exampleState_def)
  have l: "invokeLine ''B'' ''12'' = ''Program B invoke [12]''"
    by (simp add: invokeLine_def)
  from two_digit_invoke_is_default [OF h1 h2 h3 h4 h5 h6, of plainCollaborators "()"]
  have "findInvoke ''Program B invoke [12]'' = None \<and>
    processLog plainCollaborators () exampleState ''Program B invoke [12]'' =
     Inr \<lparr>depth = 1,
          prettyLogs =
            [\<lparr>invokedProgram = Some ''A'',
              logs = [\<lparr>text' = ''Program B invoke [12]'', prefix = ''> '', style = Muted\<rparr>],
              computeUnits = Num 0, truncated = False, failed = False\<rparr>],
          currentProgram = [''A''], console = []\<rparr>"
    unfolding l by (simp add: exampleState_def prefixBuilder_1)
  with h1 h2 h3 h4 h5 l show ?thesis by simp
qed

subsection \<open>States that a run reaches\<close>

lemma nestedState_reached:
  "forEach (processLog plainCollaborators ()) initialState (take 2 nestedLogs) = Inr nestedState"
  by code_simp

lemma pushLog_leaves_trace: "pushLog sty txt st = Inr st' \<Longrightarrow> prettyLogs st' \<noteq> []"
  by (auto simp: pushLog_def modifyLast_def split: if_splits prod.splits)

lemma processLog_leaves_trace:
  assumes "processLog env cluster st log = Inr st'"
  shows "prettyLogs st' \<noteq> []"
proof -
  have fill: "prettyLogs s' \<noteq> []"
    if "fillLogBranch env s l = Inr s'" and "prettyLogs s \<noteq> []" for s s' l
    using that
    by (auto simp: fillLogBranch_def Let_def dest: pushLog_leaves_trace
        split: if_splits option.splits)
  from assms show ?thesis
    by (auto simp: processLog_def programLogBranch_def truncatedBranch_def invokeBranch_def
        successBranch_def failedBranch_def defaultBranch_def andThen_def Let_def modifyLast_def
        dest: pushLog_leaves_trace fill
        split: if_splits option.splits sum.splits)
qed

lemma forEach_leaves_trace:
  "forEach (processLog env cluster) st ls = Inr st' \<Longrightarrow> ls \<noteq> [] \<Longrightarrow> prettyLogs st' \<noteq> []"
proof (induction ls arbitrary: st)
  case Nil
  then show ?case by simp
next
  case (Cons l ls)
  from Cons.prems obtain st1 where step: "processLog env cluster st l = Inr st1"
    and run: "forEach (processLog env cluster) st1 ls = Inr st'"
    by (auto simp: andThen_def split: sum.splits)
  show ?case
  proof (cases ls)
    case Nil
    with run step show ?thesis by (auto dest: processLog_leaves_trace)
  next
    case (Cons a list)
    with Cons.IH [OF run] show ?thesis by simp
  qed
qed

lemma reachable_depth_or_trace:
  "forEach (processLog env cluster) initialState ls = Inr st \<Longrightarrow>
   depth st = 0 \<or> prettyLogs st \<noteq> []"
proof (cases ls)
  case Nil
  assume "forEach (processLog env cluster) initialState ls = Inr st"
  with Nil show ?thesis by (auto simp: initialState_def)
next
  case (Cons l rest)
  assume "forEach (processLog env cluster) initialState ls = Inr st"
  from forEach_leaves_trace [OF this] Cons show ?thesis by simp
qed

subsection \<open>Compute units\<close>

text \<open>
  The rounding of the model on the integers just above \<open>2 ^ 53\<close>, where a double holds
  the even ones only, and from \<open>2 ^ 1024\<close> on, where it gives Infinity; up to \<open>2 ^ 53\<close>
  nothing is rounded.
\<close>

lemma bitLength_example: "bitLength 9007199254740993 = 54"
  by simp

lemma round_examples:
  "roundToDouble 9007199254740993 = Num 9007199254740992"
  "plus_number (Num 9007199254740992) (Num 1) = Num 9007199254740992"
  "parseInt ''9007199254740993'' = Num 9007199254740992"
  by (simp_all add: roundToDouble_def Let_def parseInt_def mathInt_def isDigit_def digitValue_def)

lemma bitLength_power: "bitLength (2 ^ k) = Suc k"
  by (induction k) simp_all

lemma bitLength_step: "n \<noteq> 0 \<Longrightarrow> bitLength n = Suc (bitLength (n div 2))"
  by (subst bitLength.simps) (simp del: bitLength.simps)

lemma bitLength_zero: "bitLength 0 = 0"
  by (subst bitLength.simps) (simp del: bitLength.simps)

lemma bitLength_upper: "n < 2 ^ bitLength n"
proof (induction n rule: bitLength.induct)
  case (1 n)
  show ?case
  proof (cases "n = 0")
    case True
    then show ?thesis by (simp del: bitLength.simps add: bitLength_zero)
  next
    case False
    with 1 have "n div 2 < 2 ^ bitLength (n div 2)" by (simp del: bitLength.simps)
    then have "n < 2 * 2 ^ bitLength (n div 2)" by linarith
    with False show ?thesis by (simp del: bitLength.simps add: bitLength_step)
  qed
qed

lemma bitLength_lower: "n \<noteq> 0 \<Longrightarrow> 2 * 2 ^ (bitLength n - 1) \<le> 2 * n"
proof (induction n rule: bitLength.induct)
  case (1 n)
  show ?case
  proof (cases "n div 2 = 0")
    case True
    with "1.prems" have n: "n = 1" by linarith
    have "bitLength 1 = 1"
      using bitLength_step [of 1] by (simp del: bitLength.simps add: bitLength_zero)
    with n show ?thesis by (simp del: bitLength.simps)
  next
    case False
    with "1.prems" 1 have ih: "2 * 2 ^ (bitLength (n div 2) - 1) \<le> 2 * (n div 2)"
      by (simp del: bitLength.simps)
    from False have "bitLength (n div 2) = Suc (bitLength (n div 2 div 2))"
      by (rule bitLength_step)
    then have "(2::nat) * 2 ^ (bitLength (n div 2) - 1) = 2 ^ bitLength (n div 2)"
      by (simp del: bitLength.simps)
    moreover from "1.prems" have "bitLength n - 1 = bitLength (n div 2)"
      by (simp del: bitLength.simps add: bitLength_step)
    ultimately have "(2::nat) ^ (bitLength n - 1) \<le> 2 * (n div 2)" using ih by simp
    then show ?thesis by linarith
  qed
qed

lemma round_overflows:
  assumes "2 ^ 1024 \<le> n"
  shows "roundToDouble n = Infinity"
proof -
  define L where "L = bitLength n"
  define e where "e = L - 53"
  define T :: nat where "T = 2 ^ 1024"
  have T: "T = 2 ^ 972 * 2 ^ 52" unfolding T_def by (simp only: power_add [symmetric]) simp
  from assms have nT: "T \<le> n" by (simp only: T_def)
  from nT bitLength_upper [of n] have "(2::nat) ^ 1024 < 2 ^ L"
    unfolding L_def T_def by (rule le_less_trans)
  then have L: "1024 < L" by (rule power_less_imp_less_exp [rotated]) simp
  then have Le: "L - 1 = 52 + e" and e: "972 \<le> e" unfolding e_def by simp_all
  have "(0::nat) < T" unfolding T_def by (rule zero_less_power) simp
  with nT have n0: "n \<noteq> 0" by linarith
  from bitLength_lower [OF n0] have "(2::nat) ^ (L - 1) \<le> n" unfolding L_def by linarith
  then have low: "2 ^ 52 * 2 ^ e \<le> n" unfolding Le by (simp only: power_add)
  then have q: "2 ^ 52 \<le> n div 2 ^ e"
    by (simp only: less_eq_div_iff_mult_less_eq zero_less_power zero_less_numeral)
  have "(2::nat) ^ 972 \<le> 2 ^ e" using e by (intro power_increasing) simp_all
  then have "T \<le> 2 ^ e * 2 ^ 52" unfolding T by (rule mult_le_mono1)
  also from q have "\<dots> \<le> 2 ^ e * (n div 2 ^ e)" by (rule mult_le_mono2)
  finally have m1: "T \<le> (n div 2 ^ e) * 2 ^ e" by (simp only: mult.commute)
  have "(n div 2 ^ e) * 2 ^ e \<le> (n div 2 ^ e + 1) * 2 ^ e" by (rule mult_le_mono1) simp
  with m1 have m2: "T \<le> (n div 2 ^ e + 1) * 2 ^ e" by (rule le_trans)
  have "(2::nat) ^ 53 < 2 ^ 1024" by (rule power_strict_increasing) simp_all
  with nT have big: "\<not> n \<le> 2 ^ 53" unfolding T_def by linarith
  show ?thesis
    unfolding roundToDouble_def Let_def L_def [symmetric] e_def [symmetric] T_def [symmetric]
    using big m1 m2 by (simp only: if_True if_False simp_thms split: if_splits)
qed

lemma roundToDouble_exact: "n \<le> 2 ^ 53 \<Longrightarrow> roundToDouble n = Num n"
  by (simp add: roundToDouble_def)

lemma modifyLast_id: "(\<And>x. f x = x) \<Longrightarrow> modifyLast f xs = xs"
  by (simp add: modifyLast_def)

lemma modifyLast_Nil [simp]: "modifyLast f [] = []"
  by (simp add: modifyLast_def)

lemma map_modifyLast:
  "(\<And>x. g (f x) = h (g x)) \<Longrightarrow> map g (modifyLast f xs) = modifyLast h (map g xs)"
  by (cases xs rule: rev_cases) (simp_all add: modifyLast_snoc)

lemma modifyLast_twice: "modifyLast f (modifyLast g xs) = modifyLast (\<lambda>x. f (g x)) xs"
  by (cases xs rule: rev_cases) (simp_all add: modifyLast_snoc)

lemma units_keep:
  "(\<And>t. computeUnits (f t) = computeUnits t) \<Longrightarrow>
   map computeUnits (modifyLast f pl) = map computeUnits pl"
  by (simp add: map_modifyLast [where h = "\<lambda>u. u"] modifyLast_id)

lemma pushLog_units:
  assumes "pushLog sty txt st = Inr st'"
  shows "units st' = units st \<and> prettyLogs st \<noteq> [] \<and> depth st' = depth st"
  using assms
  by (auto simp: pushLog_def units_def units_keep split: if_splits prod.splits)

lemma consumedCallback_units:
  "consumedCallback st ps = Inr st' \<Longrightarrow>
   depth st' = depth st \<and>
   units st' =
     (if depth st = 1
      then modifyLast (\<lambda>u. foldl plus_number u (map parseInt ps)) (units st)
      else units st)"
proof (induction ps arbitrary: st)
  case Nil
  then show ?case by (auto simp: modifyLast_id)
next
  case (Cons p ps)
  show ?case
  proof (cases "depth st = 1")
    case False
    with Cons show ?thesis by simp
  next
    case True
    let ?st1 = "st\<lparr>prettyLogs :=
        modifyLast (\<lambda>t. t\<lparr>computeUnits := plus_number (computeUnits t) (parseInt p)\<rparr>)
          (prettyLogs st)\<rparr>"
    from Cons.prems True have run: "consumedCallback ?st1 ps = Inr st'"
      by (simp split: if_splits)
    have u1: "units ?st1 = modifyLast (\<lambda>u. plus_number u (parseInt p)) (units st)"
      by (simp add: units_def map_modifyLast)
    from Cons.IH [OF run] True u1 show ?thesis
      by (simp add: modifyLast_twice)
  qed
qed

lemma plusValue_Some:
  "plusValue x y = Some s \<Longrightarrow> \<exists>a b. x = Some a \<and> y = Some b \<and> s = a + b"
  by (auto simp: plusValue_def split: option.splits)

lemma foldl_exact:
  "sumValues (map mathInt ps) = Some s \<Longrightarrow> a + s \<le> 2 ^ 53 \<Longrightarrow>
   foldl plus_number (Num a) (map parseInt ps) = Num (a + s)"
proof (induction ps arbitrary: a s)
  case Nil
  then show ?case by simp
next
  case (Cons p ps)
  from Cons.prems(1) obtain v s' where v: "mathInt p = Some v"
    and s': "sumValues (map mathInt ps) = Some s'" and s: "s = v + s'"
    by (auto dest: plusValue_Some)
  from Cons.prems(2) s have b1: "v \<le> 2 ^ 53" and b2: "a + v \<le> 2 ^ 53"
    and b3: "(a + v) + s' \<le> 2 ^ 53" by simp_all
  from v b1 have "parseInt p = Num v" by (simp add: parseInt_def roundToDouble_exact)
  with b2 have "plus_number (Num a) (parseInt p) = Num (a + v)"
    by (simp add: roundToDouble_exact)
  with Cons.IH [OF s' b3] s show ?case by (simp add: add.assoc)
qed

lemma unitsAt_snoc_zero: "unitsAt (xs @ [Num 0]) k = unitsAt xs k"
  by (auto simp: unitsAt_def nth_append)

lemma unitsAt_modifyLast:
  "xs \<noteq> [] \<Longrightarrow>
   unitsAt (modifyLast f xs) k = (if k = length xs - 1 then f (unitsAt xs k) else unitsAt xs k)"
  by (cases xs rule: rev_cases) (auto simp: modifyLast_snoc unitsAt_def nth_append)

lemma programLogBranch_units:
  "programLogBranch st log = Inr st' \<Longrightarrow> units st' = units st"
  by (auto simp: programLogBranch_def dest: pushLog_units)

lemma truncatedBranch_units:
  "truncatedBranch st = Inr st' \<Longrightarrow> units st' = units st"
  by (auto simp: truncatedBranch_def units_def units_keep split: if_splits)

lemma successBranch_units:
  "successBranch st = Inr st' \<Longrightarrow> units st' = units st"
  by (auto simp: successBranch_def andThen_def units_def dest!: pushLog_units split: sum.splits)

lemma failedBranch_units:
  "failedBranch st log = Inr st' \<Longrightarrow> units st' = units st"
  by (auto simp: failedBranch_def andThen_def Let_def units_def units_keep
      dest!: pushLog_units split: sum.splits if_splits)

lemma invokeBranch_units:
  "invokeBranch env cluster st a = Inr st' \<Longrightarrow>
   units st' = (if depth st = 0 then units st @ [Num 0] else units st)"
  by (auto simp: invokeBranch_def andThen_def Let_def units_def
      dest!: pushLog_units split: sum.splits if_splits)

lemma fillLogBranch_units:
  "fillLogBranch env st log = Inr st' \<Longrightarrow> units st' = units st"
  by (auto simp: fillLogBranch_def Let_def dest: pushLog_units split: if_splits option.splits)

lemma defaultBranch_units:
  assumes "defaultBranch env st log = Inr st'"
  shows "unitsAt (units st') k =
           (if depthAtConsumption st = 1 \<and> k = traceAtConsumption st
            then foldl plus_number (unitsAt (units st) k) (map parseInt (consumedGroups log))
            else unitsAt (units st) k)"
proof -
  define st0 where "st0 =
    (if depth st = 0 then
       st\<lparr>prettyLogs := prettyLogs st @
            [\<lparr>invokedProgram = None, logs = [], computeUnits = Num 0,
              truncated = False, failed = False\<rparr>],
          depth := depth st + 1\<rparr>
     else st)"
  from assms obtain st2 st3 where
    cb: "consumedCallback st0 (consumedGroups log) = Inr st2"
    and pl: "pushLog Muted (replaceConsumed log) st2 = Inr st3"
    and fl: "fillLogBranch env st3 (replaceConsumed log) = Inr st'"
    by (auto simp: defaultBranch_def Let_def andThen_def st0_def split: sum.splits)
  have d0: "depth st0 = depthAtConsumption st"
    by (simp add: st0_def depthAtConsumption_def)
  have u0: "units st0 = (if depth st = 0 then units st @ [Num 0] else units st)"
    by (simp add: st0_def units_def)
  then have a0: "unitsAt (units st0) j = unitsAt (units st) j" for j
    by (simp add: unitsAt_snoc_zero)
  have l0: "length (units st0) - 1 = traceAtConsumption st"
    by (simp add: st0_def traceAtConsumption_def units_def)
  from consumedCallback_units [OF cb]
  have u2: "units st2 =
      (if depth st0 = 1
       then modifyLast (\<lambda>u. foldl plus_number u (map parseInt (consumedGroups log))) (units st0)
       else units st0)"
    by simp
  from pushLog_units [OF pl] have u3: "units st3 = units st2" and ne2: "prettyLogs st2 \<noteq> []"
    by simp_all
  from fillLogBranch_units [OF fl] u3 have u': "units st' = units st2" by simp
  from ne2 have "units st2 \<noteq> []" by (simp add: units_def)
  with u2 have ne0: "units st0 \<noteq> []" by (auto split: if_splits)
  show ?thesis
  proof (cases "depth st0 = 1")
    case False
    with u2 u' have "units st' = units st0" by simp
    with False show ?thesis by (simp add: a0 d0)
  next
    case True
    with u2 u' have eq: "units st' =
        modifyLast (\<lambda>u. foldl plus_number u (map parseInt (consumedGroups log))) (units st0)"
      by simp
    have "unitsAt (units st') k =
        (if k = traceAtConsumption st
         then foldl plus_number (unitsAt (units st0) k) (map parseInt (consumedGroups log))
         else unitsAt (units st0) k)"
      unfolding eq unitsAt_modifyLast [OF ne0] l0 ..
    with True show ?thesis by (simp add: a0 d0)
  qed
qed

lemma processLog_units:
  assumes "processLog env cluster st log = Inr st'"
    and "unitsAt (units st) k = Num a" and "credit st log k = Some c" and "a + c \<le> 2 ^ 53"
  shows "unitsAt (units st') k = Num (a + c)"
proof (cases "reachesDefault log")
  case True
  with assms(1) have df: "defaultBranch env st log = Inr st'" by (simp add: processLog_default)
  show ?thesis
  proof (cases "depthAtConsumption st = 1 \<and> k = traceAtConsumption st")
    case True
    with \<open>reachesDefault log\<close> assms(3)
    have "sumValues (map mathInt (consumedGroups log)) = Some c"
      by (simp add: credit_def consumedUnits_def)
    from foldl_exact [OF this assms(4)] defaultBranch_units [OF df, of k] True assms(2)
    show ?thesis by simp
  next
    case False
    with assms(3) have "c = 0" by (auto simp: credit_def)
    with defaultBranch_units [OF df, of k] False assms(2) show ?thesis by auto
  qed
next
  case False
  with assms(3) have c: "c = 0" by (simp add: credit_def)
  from False assms(1) have "units st' = units st \<or> units st' = units st @ [Num 0]"
    by (auto simp: processLog_def reachesDefault_def
        dest: programLogBranch_units truncatedBranch_units successBranch_units
          failedBranch_units invokeBranch_units
        split: if_splits option.splits)
  with assms(2) show ?thesis by (auto simp: c unitsAt_snoc_zero)
qed

lemma forEach_units:
  "forEach (processLog env cluster) st ls = Inr st' \<Longrightarrow>
   unitsAt (units st) k = Num a \<Longrightarrow>
   credited (processLog env cluster) st ls k = Some s \<Longrightarrow> a + s \<le> 2 ^ 53 \<Longrightarrow>
   unitsAt (units st') k = Num (a + s)"
proof (induction ls arbitrary: st a s)
  case Nil
  then show ?case by simp
next
  case (Cons l ls)
  from Cons.prems(1) obtain st1 where step: "processLog env cluster st l = Inr st1"
    and run: "forEach (processLog env cluster) st1 ls = Inr st'"
    by (auto simp: andThen_def split: sum.splits)
  from Cons.prems(3) step obtain c s' where c: "credit st l k = Some c"
    and s': "credited (processLog env cluster) st1 ls k = Some s'" and s: "s = c + s'"
    by (auto dest: plusValue_Some)
  from Cons.prems(4) s have b1: "a + c \<le> 2 ^ 53" and b2: "(a + c) + s' \<le> 2 ^ 53"
    by simp_all
  from processLog_units [OF step Cons.prems(2) c b1]
  have "unitsAt (units st1) k = Num (a + c)" .
  from Cons.IH [OF run this s' b2] s show ?case by (simp add: add.assoc)
qed

lemma attributeError_units:
  assumes "k < length (attributeError pe pl)"
  shows "computeUnits (attributeError pe pl ! k) = unitsAt (map computeUnits pl) k"
proof (cases pe)
  case None
  with assms show ?thesis by (simp add: attributeError_def unitsAt_def)
next
  case (Some e)
  show ?thesis
  proof (cases pl rule: rev_cases)
    case Nil
    have "attributeError (Some e) [] =
      [\<lparr>invokedProgram = None, logs = [], computeUnits = Num 0, truncated = False,
        failed = True\<rparr>]"
      by (simp add: attributeError_def Let_def)
    with assms Nil Some show ?thesis by (simp add: unitsAt_def)
  next
    case (snoc ys y)
    show ?thesis
    proof (cases "index e = int (length (ys @ [y])) - 1")
      case True
      from attributeError_last [OF True] assms snoc Some show ?thesis
        by (auto simp: unitsAt_def nth_append split: if_splits)
    next
      case False
      with assms snoc Some have "attributeError pe pl = pl"
        by (simp add: attributeError_def Let_def)
      with assms show ?thesis by (simp add: unitsAt_def)
    qed
  qed
qed

lemma returned_units:
  assumes "parseProgramLogs env ls err cluster = Inr traces" and "k < length traces"
    and "credited (processLog env cluster) initialState ls k = Some s" and "s \<le> 2 ^ 53"
  shows "computeUnits (traces ! k) = Num s"
proof -
  from assms(1) obtain stf pe where
    run: "forEach (processLog env cluster) initialState ls = Inr stf"
    and tr: "traces = attributeError pe (prettyLogs stf)"
    by (auto simp: parseProgramLogs_def Let_def andThen_def split: sum.splits)
  have start: "unitsAt (units initialState) k = Num 0"
    by (simp add: units_def unitsAt_def initialState_def)
  from assms(4) have "0 + s \<le> 2 ^ 53" by simp
  from forEach_units [OF run start assms(3) this]
  have "unitsAt (units stf) k = Num s" by simp
  with assms(2) tr show ?thesis by (simp add: attributeError_units units_def)
qed

lemma deep_line_keeps_units:
  assumes d: "2 \<le> depth st" and step: "processLog env cluster st log = Inr st'"
  shows "map computeUnits (prettyLogs st') = map computeUnits (prettyLogs st)"
proof (cases "reachesDefault log")
  case True
  with step have df: "defaultBranch env st log = Inr st'" by (simp add: processLog_default)
  from d df obtain st2 st3 where
    cb: "consumedCallback st (consumedGroups log) = Inr st2"
    and pl: "pushLog Muted (replaceConsumed log) st2 = Inr st3"
    and fl: "fillLogBranch env st3 (replaceConsumed log) = Inr st'"
    by (auto simp: defaultBranch_def Let_def andThen_def split: sum.splits)
  from consumedCallback_units [OF cb] d have "units st2 = units st" by simp
  with pushLog_units [OF pl] fillLogBranch_units [OF fl] show ?thesis
    by (simp add: units_def)
next
  case False
  with step d have "units st' = units st"
    by (auto simp: processLog_def reachesDefault_def
        dest: programLogBranch_units truncatedBranch_units successBranch_units
          failedBranch_units invokeBranch_units
        split: if_splits option.splits)
  then show ?thesis by (simp add: units_def)
qed

text \<open>
  C3, as the claim states it, fails. A line of the form \<open>Program <addr> consumed <n> <rest>\<close>
  whose rest includes \<open>success\<close> is processed at depth 1 as a success marker, and its
  units are not added. And \<open>computeUnits\<close> is a double: the one value \<open>2 ^ 53 + 1\<close> is
  read as \<open>2 ^ 53\<close>.
\<close>

theorem computeUnits_credited_counterexample:
  "matchConsumed ''Program A consumed 5 of 10 units successfully'' =
     Some (''5'', ''of 10 units successfully'', []) \<and>
   forEach (processLog plainCollaborators ()) initialState [''Program A invoke [1]''] =
     Inr exampleState \<and>
   depth exampleState = 1 \<and>
   parseProgramLogs plainCollaborators
     [''Program A invoke [1]'', ''Program A consumed 5 of 10 units successfully''] None () =
     Inr [\<lparr>invokedProgram = Some ''A'',
           logs = [\<lparr>text' = ''Program returned success'', prefix = ''> '', style = Success\<rparr>],
           computeUnits = Num 0, truncated = False, failed = False\<rparr>] \<and>
   mathInt ''9007199254740993'' = Some 9007199254740993 \<and>
   parseProgramLogs plainCollaborators [''Program A consumed 9007199254740993 x''] None () =
     Inr [\<lparr>invokedProgram = None,
           logs = [\<lparr>text' = ''Program consumed: 9007199254740993 x'', prefix = ''> '',
                    style = Muted\<rparr>],
           computeUnits = Num 9007199254740992, truncated = False, failed = False\<rparr>]"
proof -
  have a: "matchConsumed ''Program A consumed 5 of 10 units successfully'' =
     Some (''5'', ''of 10 units successfully'', []) \<and>
   forEach (processLog plainCollaborators ()) initialState [''Program A invoke [1]''] =
     Inr exampleState \<and>
   depth exampleState = 1 \<and>
   parseProgramLogs plainCollaborators
     [''Program A invoke [1]'', ''Program A consumed 5 of 10 units successfully''] None () =
     Inr [\<lparr>invokedProgram = Some ''A'',
           logs = [\<lparr>text' = ''Program returned success'', prefix = ''> '', style = Success\<rparr>],
           computeUnits = Num 0, truncated = False, failed = False\<rparr>]"
    by code_simp
  have b: "mathInt ''9007199254740993'' = Some 9007199254740993"
    by (simp add: mathInt_def isDigit_def digitValue_def)
  have c: "parseProgramLogs plainCollaborators [''Program A consumed 9007199254740993 x''] None () =
     Inr [\<lparr>invokedProgram = None,
           logs = [\<lparr>text' = ''Program consumed: 9007199254740993 x'', prefix = ''> '',
                    style = Muted\<rparr>],
           computeUnits = Num 9007199254740992, truncated = False, failed = False\<rparr>]"
    by (simp add: parseProgramLogs_def initialState_def processLog_def matchInvoke_def
      defaultBranch_def matchConsumed_def isWord_def isDigit_def isDot_def parseInt_def
      mathInt_def digitValue_def roundToDouble_def Let_def pushLog_def prefixBuilder_def
      modifyLast_def fillLogBranch_def andThen_def attributeError_def)
  from a b c show ?thesis by simp
qed

text \<open>
  C3, amended. Let \<open>s\<close> be the sum of the integers \<open><n>\<close> of the matches of the consumed
  pattern in the lines that reached the last branch (no \<open>Program log:\<close> line, no
  truncation marker, no invocation, neither \<open>success\<close> nor \<open>failed\<close> in the line) for the
  trace of index \<open>k\<close> while the depth was exactly 1, every such \<open><n>\<close> having a digit. When
  \<open>parseProgramLogs\<close> returns and \<open>s\<close> is at most \<open>2 ^ 53\<close>, the \<open>computeUnits\<close> of that trace
  is \<open>s\<close>. And no line processed at depth 2 or deeper changes the \<open>computeUnits\<close> of any
  trace, or the number of traces.
\<close>

theorem computeUnits_credited:
  "(parseProgramLogs env ls err cluster = Inr traces \<and> k < length traces \<and>
    credited (processLog env cluster) initialState ls k = Some s \<and> s \<le> 2 ^ 53 \<longrightarrow>
      computeUnits (traces ! k) = Num s) \<and>
   (2 \<le> depth st \<and> processLog env cluster st log = Inr st' \<longrightarrow>
      map computeUnits (prettyLogs st') = map computeUnits (prettyLogs st))"
  using returned_units [of env ls err cluster traces k s]
    deep_line_keeps_units [of st env cluster log st']
  by blast

theorem computeUnits_credited_witness:
  "parseProgramLogs plainCollaborators nestedLogs None () =
     Inr [\<lparr>invokedProgram = Some ''A'',
           logs = [\<lparr>text' = ''Program invoked: B'', prefix = ''> '', style = Info\<rparr>,
                   \<lparr>text' = ''Program consumed: 7 of 9 compute units'',
                    prefix = [CHR 0xA0, CHR 0xA0] @ ''> '', style = Muted\<rparr>,
                   \<lparr>text' = ''Program returned success'',
                    prefix = [CHR 0xA0, CHR 0xA0] @ ''> '', style = Success\<rparr>,
                   \<lparr>text' = ''Program consumed: 100 of 200000 compute units'',
                    prefix = ''> '', style = Muted\<rparr>,
                   \<lparr>text' = ''Program returned success'', prefix = ''> '', style = Success\<rparr>],
           computeUnits = Num 100, truncated = False, failed = False\<rparr>] \<and>
   credited (processLog plainCollaborators ()) initialState nestedLogs 0 = Some 100 \<and>
   (100::nat) \<le> 2 ^ 53 \<and>
   2 \<le> depth nestedState \<and>
   processLog plainCollaborators () nestedState ''Program B consumed 7 of 9 compute units'' =
     Inr (nestedState\<lparr>prettyLogs :=
            [\<lparr>invokedProgram = Some ''A'',
              logs = [\<lparr>text' = ''Program invoked: B'', prefix = ''> '', style = Info\<rparr>,
                      \<lparr>text' = ''Program consumed: 7 of 9 compute units'',
                       prefix = [CHR 0xA0, CHR 0xA0] @ ''> '', style = Muted\<rparr>],
              computeUnits = Num 0, truncated = False, failed = False\<rparr>]\<rparr>) \<and>
   map computeUnits (prettyLogs nestedState) = [Num 0]"
proof -
  note evals = nestedLogs_def parseProgramLogs_def initialState_def processLog_def
    matchInvoke_def invokeBranch_def successBranch_def defaultBranch_def matchConsumed_def
    isWord_def isDigit_def isDot_def parseInt_def mathInt_def digitValue_def
    roundToDouble_def plainCollaborators_def pushLog_def prefixBuilder_def indentToken_def
    modifyLast_def fillLogBranch_def andThen_def attributeError_def Let_def
  let ?T = "\<lparr>invokedProgram = Some ''A'',
           logs = [\<lparr>text' = ''Program invoked: B'', prefix = ''> '', style = Info\<rparr>,
                   \<lparr>text' = ''Program consumed: 7 of 9 compute units'',
                    prefix = [CHR 0xA0, CHR 0xA0] @ ''> '', style = Muted\<rparr>,
                   \<lparr>text' = ''Program returned success'',
                    prefix = [CHR 0xA0, CHR 0xA0] @ ''> '', style = Success\<rparr>,
                   \<lparr>text' = ''Program consumed: 100 of 200000 compute units'',
                    prefix = ''> '', style = Muted\<rparr>,
                   \<lparr>text' = ''Program returned success'', prefix = ''> '', style = Success\<rparr>],
           computeUnits = Num 100, truncated = False, failed = False\<rparr>"
  let ?st3 = "nestedState\<lparr>prettyLogs :=
            [\<lparr>invokedProgram = Some ''A'',
              logs = [\<lparr>text' = ''Program invoked: B'', prefix = ''> '', style = Info\<rparr>,
                      \<lparr>text' = ''Program consumed: 7 of 9 compute units'',
                       prefix = [CHR 0xA0, CHR 0xA0] @ ''> '', style = Muted\<rparr>],
              computeUnits = Num 0, truncated = False, failed = False\<rparr>]\<rparr>"
  have run: "parseProgramLogs plainCollaborators nestedLogs None () = Inr [?T]"
    by (simp add: evals)
  have d: "2 \<le> depth nestedState" by (simp add: nestedState_def)
  have step: "processLog plainCollaborators () nestedState
      ''Program B consumed 7 of 9 compute units'' = Inr ?st3"
    by code_simp
  have cr: "credited (processLog plainCollaborators ()) initialState nestedLogs 0 = Some 100"
    by (simp add: evals credit_def reachesDefault_def depthAtConsumption_def
        traceAtConsumption_def consumedUnits_def plusValue_def)
  have bound: "(100::nat) \<le> 2 ^ 53" by simp
  from computeUnits_credited [of plainCollaborators nestedLogs None "()" "[?T]" 0 100
      nestedState "''Program B consumed 7 of 9 compute units''" ?st3] run cr bound d step
  have "computeUnits ([?T] ! 0) = Num 100"
    and "map computeUnits (prettyLogs nestedState) = [Num 0]"
    by simp_all
  with run cr bound d step show ?thesis by simp
qed

subsection \<open>A message of one line\<close>

text \<open>
  For a message \<open>X\<close> without line terminator the line \<open>Program log: X\<close> is rewritten to
  \<open>Program logged: "X"\<close>, appended as one muted line, and \<open>X\<close> occurs in the new text.
\<close>

lemma replaceLog_one_line:
  assumes "list_all isDot X"
  shows "replaceLog (''Program log: '' @ X) = ''Program logged: '' @ [CHR 0x22] @ X @ [CHR 0x22]"
proof -
  from assms have tw: "takeWhile isDot X = X" and dw: "dropWhile isDot X = []"
    by (simp_all add: list_all_iff)
  show ?thesis by (simp add: tw dw)
qed

lemma includes_append: "includes' (a @ X @ b) X"
proof (induction a)
  case Nil
  have "startsWith (X @ b) X" by (induction X) simp_all
  then show ?case by (cases "X @ b") (auto simp: )
next
  case (Cons c a)
  then show ?case by simp
qed

lemma programLog_one_line:
  assumes "list_all isDot X" and "prettyLogs st \<noteq> []"
  shows "processLog env cluster st (''Program log: '' @ X) =
           Inr (st\<lparr>prettyLogs := butlast (prettyLogs st) @
                    [(last (prettyLogs st))
                       \<lparr>logs := logs (last (prettyLogs st)) @
                          [\<lparr>text' = ''Program logged: '' @ [CHR 0x22] @ X @ [CHR 0x22],
                            prefix = snd (prefixBuilder (depth st)), style = Muted\<rparr>]\<rparr>],
                  console := console st @ fst (prefixBuilder (depth st))\<rparr>) \<and>
         includes' (''Program logged: '' @ [CHR 0x22] @ X @ [CHR 0x22]) X"
proof -
  have sw: "startsWith (''Program log: '' @ X) ''Program log:''" by simp
  have "processLog env cluster st (''Program log: '' @ X) =
      pushLog Muted (replaceLog (''Program log: '' @ X)) st"
    unfolding processLog_def programLogBranch_def using sw by simp
  moreover have "includes' ((''Program logged: '' @ [CHR 0x22]) @ X @ [CHR 0x22]) X"
    by (rule includes_append)
  ultimately show ?thesis
    using assms(2) replaceLog_one_line [OF assms(1)] by (simp add: pushLog_butlast)
qed

subsection \<open>Inputs on which the function returns\<close>

text \<open>
  Once a trace exists no step throws a TypeError. So the function returns on every input
  whose first line opens a trace (an invocation, or a line of the last branch), as long
  as the decoder of the fill log does not throw; and it returns on the empty input.
\<close>

lemma pushLog_returns: "prettyLogs st \<noteq> [] \<Longrightarrow> \<exists>st'. pushLog sty txt st = Inr st'"
  by (simp add: pushLog_butlast)

lemma modifyLast_not_Nil: "xs \<noteq> [] \<Longrightarrow> modifyLast f xs \<noteq> []"
  by (simp add: modifyLast_def)

lemma consumedCallback_returns:
  "prettyLogs st \<noteq> [] \<Longrightarrow>
   \<exists>st'. consumedCallback st ps = Inr st' \<and> prettyLogs st' \<noteq> []"
proof (induction ps arbitrary: st)
  case Nil
  then show ?case by simp
next
  case (Cons p ps)
  show ?case
  proof (cases "depth st = 1")
    case True
    let ?st1 = "st\<lparr>prettyLogs :=
        modifyLast (\<lambda>t. t\<lparr>computeUnits := plus_number (computeUnits t) (parseInt p)\<rparr>)
          (prettyLogs st)\<rparr>"
    from Cons.prems have "prettyLogs ?st1 \<noteq> []" by (simp add: modifyLast_not_Nil)
    from Cons.IH [OF this] True Cons.prems show ?thesis by simp
  next
    case False
    with Cons.IH [OF Cons.prems] show ?thesis by simp
  qed
qed

lemma fillLogBranch_returns:
  assumes "prettyLogs st \<noteq> []" and "\<And>bytes. deserializeFillLog env bytes \<noteq> None"
  shows "\<exists>st'. fillLogBranch env st log = Inr st'"
proof -
  have "\<exists>st'. (case deserializeFillLog env bytes of None \<Rightarrow> Inl DecodeError
                | Some pretty \<Rightarrow> pushLog Muted (f pretty) st) = Inr st'" for bytes f
    using assms(2) [of bytes] pushLog_returns [OF assms(1)] by (cases "deserializeFillLog env bytes") auto
  then show ?thesis by (simp add: fillLogBranch_def Let_def)
qed

lemma defaultBranch_returns:
  assumes "depth st = 0 \<or> prettyLogs st \<noteq> []"
    and dec: "\<And>bytes. deserializeFillLog env bytes \<noteq> None"
  shows "\<exists>st'. defaultBranch env st log = Inr st'"
proof -
  define st0 where "st0 =
    (if depth st = 0 then
       st\<lparr>prettyLogs := prettyLogs st @
            [\<lparr>invokedProgram = None, logs = [], computeUnits = Num 0,
              truncated = False, failed = False\<rparr>],
          depth := depth st + 1\<rparr>
     else st)"
  from assms(1) have "prettyLogs st0 \<noteq> []" by (auto simp: st0_def)
  from consumedCallback_returns [OF this] obtain st2 where
    cb: "consumedCallback st0 (consumedGroups log) = Inr st2" and ne2: "prettyLogs st2 \<noteq> []"
    by blast
  from pushLog_returns [OF ne2] obtain st3 where
    pl: "pushLog Muted (replaceConsumed log) st2 = Inr st3" by blast
  from pushLog_leaves_trace [OF pl] have "prettyLogs st3 \<noteq> []" .
  from fillLogBranch_returns [OF this dec] obtain st' where
    "fillLogBranch env st3 (replaceConsumed log) = Inr st'" by blast
  with cb pl show ?thesis
    by (simp add: defaultBranch_def Let_def andThen_def st0_def [symmetric])
qed

lemma processLog_returns:
  assumes "prettyLogs st \<noteq> []" and dec: "\<And>bytes. deserializeFillLog env bytes \<noteq> None"
  shows "\<exists>st'. processLog env cluster st log = Inr st'"
proof -
  from assms(1) have d: "depth st = 0 \<or> prettyLogs st \<noteq> []" by simp
  have push: "\<exists>st'. pushLog sty txt (s\<lparr>prettyLogs := prettyLogs st\<rparr>) = Inr st'" for sty txt s
    using assms(1) by (simp add: pushLog_returns)
  show ?thesis
    using defaultBranch_returns [OF d dec, of log] assms(1)
    by (auto simp: processLog_def programLogBranch_def truncatedBranch_def invokeBranch_def
        successBranch_def failedBranch_def andThen_def Let_def pushLog_butlast modifyLast_not_Nil
        split: option.splits)
qed

lemma forEach_returns:
  assumes dec: "\<And>bytes. deserializeFillLog env bytes \<noteq> None"
  shows "prettyLogs st \<noteq> [] \<Longrightarrow> \<exists>st'. forEach (processLog env cluster) st ls = Inr st'"
proof (induction ls arbitrary: st)
  case Nil
  show ?case by simp
next
  case (Cons l ls)
  from processLog_returns [OF Cons.prems dec] obtain st1 where
    step: "processLog env cluster st l = Inr st1" by blast
  from processLog_leaves_trace [OF step] have "prettyLogs st1 \<noteq> []" .
  from Cons.IH [OF this] step show ?case by (simp add: andThen_def)
qed

lemma returns_when_first_line_opens_trace:
  assumes dec: "\<And>bytes. deserializeFillLog env bytes \<noteq> None"
    and first: "findInvoke l \<noteq> None \<or> reachesDefault l"
    and "\<not> startsWith l ''Program log:''" and "\<not> startsWith l ''Log truncated''"
  shows "\<exists>traces. parseProgramLogs env (l # ls) err cluster = Inr traces"
proof -
  have "\<exists>st1. processLog env cluster initialState l = Inr st1"
  proof (cases "findInvoke l")
    case (Some a)
    with assms(3,4) show ?thesis
      by (simp add: processLog_def invokeBranch_def initialState_def andThen_def)
  next
    case None
    with first have "reachesDefault l" by simp
    then have "processLog env cluster initialState l = defaultBranch env initialState l"
      by (rule processLog_default)
    moreover have "depth initialState = 0 \<or> prettyLogs initialState \<noteq> []"
      by (simp add: initialState_def)
    from defaultBranch_returns [OF this dec, of l]
    have "\<exists>st1. defaultBranch env initialState l = Inr st1" .
    ultimately show ?thesis by simp
  qed
  then obtain st1 where step: "processLog env cluster initialState l = Inr st1" by blast
  from processLog_leaves_trace [OF step] have "prettyLogs st1 \<noteq> []" .
  from forEach_returns [OF dec this, of cluster ls] step show ?thesis
    by (auto simp: parseProgramLogs_def Let_def andThen_def)
qed

lemma returns_on_no_line: "\<exists>traces. parseProgramLogs env [] err cluster = Inr traces"
  by (simp add: parseProgramLogs_def Let_def andThen_def)

end
